theory Spec2Isabelle
  imports Main
begin

section \<open>Session protocol: data model (backend/src/routes/auth.ts)\<close>

text \<open>
  Dates are compared by their millisecond value, so a date is a natural number.
  The documents of the two collections the handlers touch carry the fields the handlers
  read and write. A user's \<open>_id\<close> is the field \<open>uid\<close>. A refresh-token document is
  identified by its position in the collection: documents are appended by \<open>create\<close> and
  are never deleted, so the position plays the part of the document's \<open>_id\<close>.
\<close>

type_synonym date = nat

record user =
  uid :: string
  email :: string
  name :: string
  passwordHash :: string

record refresh_token =
  userId :: string
  tokenHash :: string
  expiresAt :: date
  revokedAt :: "date option"

record db =
  users :: "user list"
  refreshTokens :: "refresh_token list"

text \<open>
  The helpers imported from \<open>../utils/tokens\<close> and the library calls are parameters of
  the model. The pure ones are fields of \<open>prims\<close>; the ones that read the clock or a
  random source are the values they return during one request, fields of \<open>env\<close>.
\<close>

record prims =
  hashToken :: "string \<Rightarrow> string"
  createAccessToken :: "string \<Rightarrow> string"
  bcrypt_compare :: "string \<Rightarrow> string \<Rightarrow> bool"
  toLowerCase :: "string \<Rightarrow> string"

record env =
  now :: date
  saveTime :: date
  newRefresh :: string
  newExpiresAt :: date
  newUserId :: string
  newPasswordHash :: string

text \<open>
  \<open>now\<close> is \<open>new Date()\<close> where a handler first reads the clock (the expiry check of
  refresh, the update of logout), \<open>saveTime\<close> the second \<open>new Date()\<close> of refresh,
  \<open>newRefresh\<close> the result of \<open>createRefreshToken()\<close>, \<open>newExpiresAt\<close> that of
  \<open>refreshTokenExpiresAt()\<close>, \<open>newUserId\<close> the \<open>_id\<close> given by \<open>UserModel.create\<close> and
  \<open>newPasswordHash\<close> the result of \<open>bcrypt.hash\<close>.
\<close>

subsection \<open>Responses\<close>

datatype body =
    Message string
  | Session string string string string
  | Ok

datatype cookie_action = KeepCookie | SetCookie string | ClearCookie

record response =
  status :: nat
  body :: body
  cookie :: cookie_action

text \<open>
  \<open>Session a i e n\<close> is the body \<open>{accessToken: a, user: {id: i, email: e, name: n}}\<close>,
  \<open>Message m\<close> is \<open>{message: m}\<close> and \<open>Ok\<close> is \<open>{ok: true}\<close>.
\<close>

definition reply :: "nat \<Rightarrow> string \<Rightarrow> response" where
  "reply code m = \<lparr>status = code, body = Message m, cookie = KeepCookie\<rparr>"

definition session_reply :: "prims \<Rightarrow> nat \<Rightarrow> user \<Rightarrow> string \<Rightarrow> response" where
  "session_reply P code u tok =
     \<lparr>status = code,
      body = Session (createAccessToken P (uid u)) (uid u) (email u) (name u),
      cookie = SetCookie tok\<rparr>"

subsection \<open>Queries\<close>

text \<open>JavaScript's \<open>!v\<close> on an optional string: absent or empty.\<close>

definition falsy :: "string option \<Rightarrow> bool" where
  "falsy v = (case v of None \<Rightarrow> True | Some s \<Rightarrow> s = [])"

text \<open>JavaScript's \<open>String(v)\<close> on an optional string.\<close>

definition toString :: "string option \<Rightarrow> string" where
  "toString v = (case v of None \<Rightarrow> ''undefined'' | Some s \<Rightarrow> s)"

text \<open>\<open>findOne\<close>: the first document, in collection order, that matches.\<close>

fun findIndex :: "('a \<Rightarrow> bool) \<Rightarrow> 'a list \<Rightarrow> nat option" where
  "findIndex p [] = None"
| "findIndex p (x # xs) = (if p x then Some 0 else map_option Suc (findIndex p xs))"

definition findOneByHash :: "string \<Rightarrow> refresh_token list \<Rightarrow> nat option" where
  "findOneByHash h rs = findIndex (\<lambda>r. tokenHash r = h) rs"

text \<open>The filter \<open>{tokenHash, revokedAt: null}\<close> of logout.\<close>

definition findOneUnrevoked :: "string \<Rightarrow> refresh_token list \<Rightarrow> nat option" where
  "findOneUnrevoked h rs = findIndex (\<lambda>r. tokenHash r = h \<and> revokedAt r = None) rs"

definition findByEmail :: "string \<Rightarrow> user list \<Rightarrow> user option" where
  "findByEmail a us = find (\<lambda>u. email u = a) us"

definition findById :: "string \<Rightarrow> user list \<Rightarrow> user option" where
  "findById i us = find (\<lambda>u. uid u = i) us"

text \<open>
  \<open>RefreshTokenModel.create({userId, tokenHash, expiresAt})\<close> appends a document for
  the user with the hash of the token just drawn; its \<open>revokedAt\<close> is not set.
\<close>

definition newToken :: "prims \<Rightarrow> env \<Rightarrow> user \<Rightarrow> refresh_token" where
  "newToken P e u =
     \<lparr>userId = uid u, tokenHash = hashToken P (newRefresh e),
      expiresAt = newExpiresAt e, revokedAt = None\<rparr>"

definition issue :: "prims \<Rightarrow> env \<Rightarrow> user \<Rightarrow> db \<Rightarrow> db" where
  "issue P e u s = s\<lparr>refreshTokens := refreshTokens s @ [newToken P e u]\<rparr>"

subsection \<open>Handlers\<close>

text \<open>POST /register, lines 18-51. The body fields are optional strings.\<close>

definition register :: "prims \<Rightarrow> env \<Rightarrow> string option \<Rightarrow> string option \<Rightarrow> string option
    \<Rightarrow> db \<Rightarrow> db \<times> response" where
  "register P e em nm pw s =
     (if falsy em \<or> falsy nm \<or> falsy pw then (s, reply 400 ''Missing required fields'')
      else
        (case findByEmail (toLowerCase P (toString em)) (users s) of
           Some existing \<Rightarrow> (s, reply 409 ''Email already in use'')
         | None \<Rightarrow>
             let u = \<lparr>uid = newUserId e, email = toLowerCase P (toString em), name = toString nm,
                      passwordHash = newPasswordHash e\<rparr>
             in (issue P e u (s\<lparr>users := users s @ [u]\<rparr>),
                 session_reply P 201 u (newRefresh e))))"

text \<open>POST /login, lines 53-84.\<close>

definition login :: "prims \<Rightarrow> env \<Rightarrow> string option \<Rightarrow> string option \<Rightarrow> db \<Rightarrow> db \<times> response" where
  "login P e em pw s =
     (if falsy em \<or> falsy pw then (s, reply 400 ''Missing credentials'')
      else
        (case findByEmail (toLowerCase P (toString em)) (users s) of
           None \<Rightarrow> (s, reply 401 ''Invalid credentials'')
         | Some u \<Rightarrow>
             if \<not> bcrypt_compare P (toString pw) (passwordHash u)
             then (s, reply 401 ''Invalid credentials'')
             else (issue P e u s, session_reply P 200 u (newRefresh e))))"

text \<open>
  POST /refresh, lines 86-120. \<open>stored.save()\<close> writes \<open>revokedAt\<close> into the document
  that \<open>findOne\<close> returned.
\<close>

definition revoke :: "nat \<Rightarrow> date \<Rightarrow> db \<Rightarrow> db" where
  "revoke i t s =
     s\<lparr>refreshTokens := (refreshTokens s)[i := (refreshTokens s ! i)\<lparr>revokedAt := Some t\<rparr>]\<rparr>"

definition refresh :: "prims \<Rightarrow> env \<Rightarrow> string option \<Rightarrow> db \<Rightarrow> db \<times> response" where
  "refresh P e token s =
     (if falsy token then (s, reply 401 ''Missing refresh token'')
      else
        (case findOneByHash (hashToken P (toString token)) (refreshTokens s) of
           None \<Rightarrow> (s, reply 401 ''Refresh token invalid'')
         | Some i \<Rightarrow>
             let stored = refreshTokens s ! i in
             if revokedAt stored \<noteq> None \<or> expiresAt stored < now e
             then (s, reply 401 ''Refresh token invalid'')
             else
               (case findById (userId stored) (users s) of
                  None \<Rightarrow> (s, reply 401 ''User not found'')
                | Some u \<Rightarrow>
                    (issue P e u (revoke i (saveTime e) s),
                     session_reply P 200 u (newRefresh e)))))"

text \<open>
  POST /logout, lines 122-134. \<open>updateOne\<close> changes the first document that matches the
  filter \<open>{tokenHash, revokedAt: null}\<close>, if there is one.
\<close>

definition logout :: "prims \<Rightarrow> env \<Rightarrow> string option \<Rightarrow> db \<Rightarrow> db \<times> response" where
  "logout P e token s =
     (let s' =
        (if falsy token then s
         else
           (case findOneUnrevoked (hashToken P (toString token)) (refreshTokens s) of
              None \<Rightarrow> s
            | Some i \<Rightarrow> revoke i (now e) s))
      in (s', \<lparr>status = 200, body = Ok, cookie = ClearCookie\<rparr>))"

subsection \<open>Sequences of requests\<close>

datatype request =
    Register "string option" "string option" "string option"
  | Login "string option" "string option"
  | Refresh "string option"
  | Logout "string option"

fun handle :: "prims \<Rightarrow> env \<Rightarrow> request \<Rightarrow> db \<Rightarrow> db \<times> response" where
  "handle P e (Register em nm pw) s = register P e em nm pw s"
| "handle P e (Login em pw) s = login P e em pw s"
| "handle P e (Refresh token) s = refresh P e token s"
| "handle P e (Logout token) s = logout P e token s"



text \<open>The validity invariant of a refresh record, in the specification's words.\<close>

definition valid :: "date \<Rightarrow> refresh_token \<Rightarrow> bool" where
  "valid t r \<longleftrightarrow> revokedAt r = None \<and> t < expiresAt r"

text \<open>A token is consumed when the record that \<open>findOne\<close> returns for it is revoked.\<close>

definition consumed :: "prims \<Rightarrow> string \<Rightarrow> db \<Rightarrow> bool" where
  "consumed P t s =
     (case findOneByHash (hashToken P t) (refreshTokens s) of
        None \<Rightarrow> False
      | Some i \<Rightarrow> revokedAt (refreshTokens s ! i) \<noteq> None)"

text \<open>
  The ledger only grows: the later collection keeps every document of the earlier one in
  place with its hash, and a revoked document stays revoked.
\<close>

definition grows :: "refresh_token list \<Rightarrow> refresh_token list \<Rightarrow> bool" where
  "grows xs ys \<longleftrightarrow>
     length xs \<le> length ys \<and>
     (\<forall>i<length xs. tokenHash (ys ! i) = tokenHash (xs ! i) \<and>
        (revokedAt (xs ! i) \<noteq> None \<longrightarrow> revokedAt (ys ! i) \<noteq> None))"

text \<open>
  The failures that the specification names for refresh: the cookie is absent, no record
  matches the hash of the presented token, or the matching record is not valid.
\<close>

definition named_failure :: "prims \<Rightarrow> env \<Rightarrow> string option \<Rightarrow> db \<Rightarrow> bool" where
  "named_failure P e token s \<longleftrightarrow>
     token = None \<or>
     (case findOneByHash (hashToken P (toString token)) (refreshTokens s) of
        None \<Rightarrow> True
      | Some i \<Rightarrow> \<not> valid (now e) (refreshTokens s ! i))"

subsection \<open>The refresh handler between its awaits\<close>

text \<open>
  The handler of POST /refresh awaits four database operations: \<open>findOne\<close> (line 93),
  \<open>findById\<close> (line 98), \<open>save\<close> (line 104) and \<open>create\<close> (line 107). Node runs the
  code between two awaits without interruption, and other requests run while the handler
  waits. A task is the handler at one of its awaits, holding its local variables
  (\<open>stored\<close> with the position of the document, \<open>user\<close>); a step performs the awaited
  operation on the database and runs the handler up to its next await.
\<close>

datatype task =
    Start "string option"
  | HasStored nat refresh_token
  | HasUser nat user
  | Saved user
  | Done response

fun step :: "prims \<Rightarrow> env \<Rightarrow> task \<Rightarrow> db \<Rightarrow> task \<times> db" where
  "step P e (Start token) s =
     (if falsy token then (Done (reply 401 ''Missing refresh token''), s)
      else
        (case findOneByHash (hashToken P (toString token)) (refreshTokens s) of
           None \<Rightarrow> (Done (reply 401 ''Refresh token invalid''), s)
         | Some i \<Rightarrow>
             let stored = refreshTokens s ! i in
             if revokedAt stored \<noteq> None \<or> expiresAt stored < now e
             then (Done (reply 401 ''Refresh token invalid''), s)
             else (HasStored i stored, s)))"
| "step P e (HasStored i stored) s =
     (case findById (userId stored) (users s) of
        None \<Rightarrow> (Done (reply 401 ''User not found''), s)
      | Some u \<Rightarrow> (HasUser i u, s))"
| "step P e (HasUser i u) s = (Saved u, revoke i (saveTime e) s)"
| "step P e (Saved u) s = (Done (session_reply P 200 u (newRefresh e)), issue P e u s)"
| "step P e (Done r) s = (Done r, s)"

fun steps :: "prims \<Rightarrow> env \<Rightarrow> nat \<Rightarrow> task \<times> db \<Rightarrow> task \<times> db" where
  "steps P e 0 c = c"
| "steps P e (Suc n) c = steps P e n (step P e (fst c) (snd c))"

text \<open>
  Two requests in flight. The schedule says whose step is next: \<open>True\<close> for the first
  task, \<open>False\<close> for the second.
\<close>

fun run2 :: "prims \<Rightarrow> env \<Rightarrow> env \<Rightarrow> bool list \<Rightarrow> task \<times> task \<times> db \<Rightarrow> task \<times> task \<times> db" where
  "run2 P ea eb [] c = c"
| "run2 P ea eb (first # sched) (ta, tb, s) =
     (if first
      then (case step P ea ta s of (ta', s') \<Rightarrow> run2 P ea eb sched (ta', tb, s'))
      else (case step P eb tb s of (tb', s') \<Rightarrow> run2 P ea eb sched (ta, tb', s')))"

text \<open>The first request is served to its end, then the second.\<close>

definition serial :: "bool list" where
  "serial = [True, True, True, True, False, False, False, False]"

text \<open>Both requests look the token up before either saves.\<close>

definition overlapping :: "bool list" where
  "overlapping = [True, False, True, False, True, False, True, False]"

text \<open>
  The number of steps a task still has to take at most, and the tasks that have read record
  \<open>i\<close> of user \<open>u\<close> as valid and go on to rotate it.
\<close>

fun todo :: "task \<Rightarrow> nat" where
  "todo (Start token) = 4"
| "todo (HasStored i stored) = 3"
| "todo (HasUser i u) = 2"
| "todo (Saved u) = 1"
| "todo (Done r) = 0"

fun past_lookup :: "prims \<Rightarrow> env \<Rightarrow> nat \<Rightarrow> user \<Rightarrow> task \<Rightarrow> bool" where
  "past_lookup P e i u (Start token) = False"
| "past_lookup P e i u (HasStored j stored) = (j = i \<and> userId stored = uid u)"
| "past_lookup P e i u (HasUser j v) = (j = i \<and> v = u)"
| "past_lookup P e i u (Saved v) = (v = u)"
| "past_lookup P e i u (Done r) = (r = session_reply P 200 u (newRefresh e))"

section \<open>Realtime gateway (backend/src/socket.ts)\<close>

definition workspaceRoom :: "string \<Rightarrow> string" where
  "workspaceRoom workspaceId = ''workspace:'' @ workspaceId"

text \<open>
  A socket carries \<open>socket.data.userId\<close> and the rooms it has entered with
  \<open>socket.join\<close>. (The private room that socket.io names after the socket's id is left
  out: an id has no colon, so it is never the name of a workspace room.) The server is
  the list of the sockets of the accepted connections, and a connection is identified by
  its position in that list. The module variable \<open>io\<close> is \<open>None\<close> before \<open>initSocket\<close>.
\<close>

record socket =
  data_userId :: string
  rooms :: "string set"

type_synonym server = "socket list"

text \<open>
  \<open>socket.handshake.auth?.token\<close>: absent, a value that is not a string, or a string.
  \<open>jwt.verify\<close> is a parameter: it throws, or returns a payload with its \<open>sub\<close> claim,
  if it has one.
\<close>

datatype handshake_token = NoToken | NotAString | Token string

datatype jwt_result = Throws | Payload "string option"

text \<open>
  The middleware of \<open>io.use\<close>, lines 19-35: \<open>Inl m\<close> is \<open>next(new Error(m))\<close>, \<open>Inr u\<close> is
  \<open>next()\<close> after \<open>socket.data.userId = u\<close>.
\<close>

definition authMiddleware :: "(string \<Rightarrow> jwt_result) \<Rightarrow> handshake_token \<Rightarrow> string + string" where
  "authMiddleware verify tok =
     (case tok of
        NoToken \<Rightarrow> Inl ''Unauthorized''
      | NotAString \<Rightarrow> Inl ''Unauthorized''
      | Token t \<Rightarrow>
          if t = [] then Inl ''Unauthorized''
          else
            (case verify t of
               Throws \<Rightarrow> Inl ''Unauthorized''
             | Payload sub \<Rightarrow>
                 if falsy sub then Inl ''Unauthorized'' else Inr (toString sub)))"

text \<open>
  A connection attempt: socket.io creates the socket and fires \<open>connection\<close>, which
  registers the \<open>join_workspace\<close> handler, only when the middleware has called \<open>next()\<close>
  without an error.
\<close>

definition fresh_socket :: "string \<Rightarrow> socket" where
  "fresh_socket u = \<lparr>data_userId = u, rooms = {}\<rparr>"

definition connect :: "(string \<Rightarrow> jwt_result) \<Rightarrow> handshake_token \<Rightarrow> server \<Rightarrow> server \<times> (string + nat)" where
  "connect verify tok socks =
     (case authMiddleware verify tok of
        Inl m \<Rightarrow> (socks, Inl m)
      | Inr u \<Rightarrow> (socks @ [fresh_socket u], Inr (length socks)))"

text \<open>
  The membership directory is the collection behind \<open>MembershipModel\<close>; \<open>findOne\<close> with
  the filter \<open>{workspaceId, userId}\<close> returns the first document with both values.
  Before the query runs, mongoose casts the values of the filter to the types of the
  schema of the model, and \<open>findOne\<close> rejects with a \<open>CastError\<close> when a value
  cannot be cast (the other schemas of the repository type \<open>workspaceId\<close> and
  \<open>userId\<close> as \<open>ObjectId\<close>). The schema is a parameter of the model: \<open>casts w u\<close>
  says whether the filter \<open>{workspaceId: w, userId: u}\<close> can be cast.
\<close>

record membership =
  m_workspaceId :: string
  m_userId :: string
  m_role :: string

datatype error = CastError

definition findMembership :: "(string \<Rightarrow> string \<Rightarrow> bool) \<Rightarrow> string \<Rightarrow> string \<Rightarrow> membership list
    \<Rightarrow> error + membership option" where
  "findMembership casts w u dir =
     (if \<not> casts w u then Inl CastError
      else Inr (find (\<lambda>m. m_workspaceId m = w \<and> m_userId m = u) dir))"

text \<open>
  The acknowledgement payload \<open>{ok, message?}\<close>, and \<open>ack?.(payload)\<close>: the payload is
  sent only when the client passed a callback.
\<close>

record ack =
  ok :: bool
  message :: "string option"

definition call_ack :: "bool \<Rightarrow> ack \<Rightarrow> ack option" where
  "call_ack hasAck payload = (if hasAck then Some payload else None)"

text \<open>
  The handler of \<open>join_workspace\<close>, lines 38-56, on the socket that received the event.
  The handler has no \<open>try\<close>: when \<open>findOne\<close> rejects, the handler ends there with the
  error (\<open>Inl\<close>), it has sent no acknowledgement and the socket is as it was.
\<close>

definition join_workspace :: "(string \<Rightarrow> string \<Rightarrow> bool) \<Rightarrow> membership list \<Rightarrow> string \<Rightarrow> bool
    \<Rightarrow> socket \<Rightarrow> error + socket \<times> ack option" where
  "join_workspace casts dir workspaceId hasAck sock =
     (if workspaceId = []
      then Inr (sock, call_ack hasAck \<lparr>ok = False, message = Some ''Workspace required''\<rparr>)
      else
        (case findMembership casts workspaceId (data_userId sock) dir of
           Inl err \<Rightarrow> Inl err
         | Inr None \<Rightarrow>
             Inr (sock, call_ack hasAck \<lparr>ok = False, message = Some ''Forbidden''\<rparr>)
         | Inr (Some membership) \<Rightarrow>
             Inr (sock\<lparr>rooms := insert (workspaceRoom workspaceId) (rooms sock)\<rparr>,
                  call_ack hasAck \<lparr>ok = True, message = None\<rparr>)))"

text \<open>The socket after the handler has run: unchanged when the handler ended with an error.\<close>

definition socket_after :: "socket \<Rightarrow> error + socket \<times> ack option \<Rightarrow> socket" where
  "socket_after sock r = (case r of Inl err \<Rightarrow> sock | Inr res \<Rightarrow> fst res)"

text \<open>
  \<open>emitWorkspaceEvent\<close>, lines 62-71. \<open>io.to(room).emit(event, payload)\<close> sends the event
  to the sockets that are in the room; the result lists the deliveries as
  (connection, event, payload).
\<close>

definition emitWorkspaceEvent :: "server option \<Rightarrow> string \<Rightarrow> string \<Rightarrow> string
    \<Rightarrow> (nat \<times> string \<times> string) list" where
  "emitWorkspaceEvent io workspaceId event payload =
     (case io of
        None \<Rightarrow> []
      | Some socks \<Rightarrow>
          [(c, event, payload). c \<leftarrow> [0..<length socks],
             workspaceRoom workspaceId \<in> rooms (socks ! c)])"

text \<open>
  The life of one connection: its socket after the \<open>join_workspace\<close> events it has sent,
  each with the directory of that moment, the workspace id and whether a callback was
  passed.
\<close>

fun after_joins :: "(string \<Rightarrow> string \<Rightarrow> bool) \<Rightarrow> socket
    \<Rightarrow> (membership list \<times> string \<times> bool) list \<Rightarrow> socket" where
  "after_joins casts sock [] = sock"
| "after_joins casts sock (j # js) =
     after_joins casts
       (socket_after sock (join_workspace casts (fst j) (fst (snd j)) (snd (snd j)) sock)) js"

text \<open>
  The calls of a connection of user \<open>u\<close> that joined workspace \<open>w\<close>: the workspace id was
  not empty, the filter could be cast and the directory held a membership of \<open>u\<close> in
  \<open>w\<close>.
\<close>

definition joined :: "(string \<Rightarrow> string \<Rightarrow> bool) \<Rightarrow> string
    \<Rightarrow> (membership list \<times> string \<times> bool) list \<Rightarrow> string \<Rightarrow> bool" where
  "joined casts u js w \<longleftrightarrow>
     w \<noteq> [] \<and> casts w u \<and>
     (\<exists>j\<in>set js. fst (snd j) = w \<and>
        (\<exists>m\<in>set (fst j). m_workspaceId m = w \<and> m_userId m = u))"

section \<open>Concrete inputs\<close>

text \<open>
  Stand-ins for the helpers, and small databases, on which the handlers are evaluated.
\<close>

definition demo_prims :: prims where
  "demo_prims =
     \<lparr>hashToken = (\<lambda>t. CHR ''#'' # t),
      createAccessToken = (\<lambda>i. ''jwt-'' @ i),
      bcrypt_compare = (\<lambda>p h. h = CHR ''$'' # p),
      toLowerCase = (\<lambda>a. a)\<rparr>"

definition at :: "date \<Rightarrow> string \<Rightarrow> env" where
  "at t tok =
     \<lparr>now = t, saveTime = t, newRefresh = tok, newExpiresAt = t + 1000,
      newUserId = ''u9'', newPasswordHash = ''$pw''\<rparr>"

definition alice :: user where
  "alice = \<lparr>uid = ''u1'', email = ''a@x.io'', name = ''Alice'', passwordHash = ''$secret''\<rparr>"

definition one_session :: db where
  "one_session =
     \<lparr>users = [alice],
      refreshTokens =
        [\<lparr>userId = ''u1'', tokenHash = ''#t0'', expiresAt = 100, revokedAt = None\<rparr>]\<rparr>"

definition orphan_session :: db where
  "orphan_session =
     \<lparr>users = [],
      refreshTokens =
        [\<lparr>userId = ''u1'', tokenHash = ''#t0'', expiresAt = 100, revokedAt = None\<rparr>]\<rparr>"

definition three_sessions :: db where
  "three_sessions =
     \<lparr>users = [alice],
      refreshTokens =
        [\<lparr>userId = ''u1'', tokenHash = ''#tA'', expiresAt = 100, revokedAt = Some 5\<rparr>,
         \<lparr>userId = ''u1'', tokenHash = ''#tB'', expiresAt = 100, revokedAt = None\<rparr>,
         \<lparr>userId = ''u1'', tokenHash = ''#tC'', expiresAt = 100, revokedAt = None\<rparr>]\<rparr>"



definition alice_session :: response where
  "alice_session =
     \<lparr>status = 200, body = Session ''jwt-u1'' ''u1'' ''a@x.io'' ''Alice'',
      cookie = SetCookie ''t1''\<rparr>"

definition demo_verify :: "string \<Rightarrow> jwt_result" where
  "demo_verify t =
     (if t = ''jwt-u1'' then Payload (Some ''u1'')
      else if t = ''jwt-u2'' then Payload (Some ''u2'')
      else if t = ''jwt-nosub'' then Payload None
      else Throws)"

definition demo_dir :: "membership list" where
  "demo_dir =
     [\<lparr>m_workspaceId = ''W1'', m_userId = ''u1'', m_role = ''OWNER''\<rparr>,
      \<lparr>m_workspaceId = ''W2'', m_userId = ''u1'', m_role = ''MEMBER''\<rparr>,
      \<lparr>m_workspaceId = ''W1'', m_userId = ''u2'', m_role = ''MEMBER''\<rparr>]"

text \<open>A stand-in for the cast of the schema: an id with a hyphen cannot be cast.\<close>

definition demo_casts :: "string \<Rightarrow> string \<Rightarrow> bool" where
  "demo_casts w u \<longleftrightarrow> CHR ''-'' \<notin> set w \<and> CHR ''-'' \<notin> set u"

section \<open>Session protocol: properties\<close>

subsection \<open>Queries and the growth of the ledger\<close>

lemma findIndex_Some:
  "findIndex p xs = Some i \<Longrightarrow> i < length xs \<and> p (xs ! i) \<and> (\<forall>j<i. \<not> p (xs ! j))"
proof (induction xs arbitrary: i)
  case Nil
  then show ?case by simp
next
  case (Cons x xs)
  show ?case
  proof (cases "p x")
    case True
    with Cons.prems show ?thesis by simp
  next
    case False
    with Cons.prems obtain k where k: "findIndex p xs = Some k" "i = Suc k"
      by auto
    from Cons.IH [OF k(1)] False k(2) show ?thesis
      by (auto simp: less_Suc_eq_0_disj)
  qed
qed

lemma findIndex_None: "findIndex p xs = None \<longleftrightarrow> (\<forall>x\<in>set xs. \<not> p x)"
  by (induction xs) auto

lemma findIndex_first:
  "i < length xs \<Longrightarrow> p (xs ! i) \<Longrightarrow> \<forall>j<i. \<not> p (xs ! j) \<Longrightarrow> findIndex p xs = Some i"
proof (induction xs arbitrary: i)
  case Nil
  then show ?case by simp
next
  case (Cons x xs)
  show ?case
  proof (cases i)
    case 0
    with Cons.prems show ?thesis by simp
  next
    case (Suc k)
    with Cons.prems have "\<not> p x" by auto
    moreover have "findIndex p xs = Some k"
      using Cons.prems Suc by (intro Cons.IH) auto
    ultimately show ?thesis using Suc by simp
  qed
qed

lemma grows_refl: "grows xs xs"
  by (simp add: grows_def)

lemma grows_trans: "grows xs ys \<Longrightarrow> grows ys zs \<Longrightarrow> grows xs zs"
  unfolding grows_def by (metis (no_types, lifting) le_trans less_le_trans)

lemma grows_append: "grows xs (xs @ ys)"
  by (simp add: grows_def nth_append)

lemma grows_revoke: "grows xs (xs[i := (xs ! i)\<lparr>revokedAt := Some t\<rparr>])"
  by (cases "i < length xs") (auto simp: grows_def nth_list_update)

lemma grows_findOne:
  assumes "grows xs ys" and "findOneByHash h xs = Some i"
  shows "findOneByHash h ys = Some i"
proof -
  from assms(2) have i: "i < length xs" "tokenHash (xs ! i) = h"
    "\<forall>j<i. tokenHash (xs ! j) \<noteq> h"
    using findIndex_Some [of "\<lambda>r. tokenHash r = h" xs i] by (auto simp: findOneByHash_def)
  from assms(1) i have "i < length ys" "tokenHash (ys ! i) = h"
    "\<forall>j<i. tokenHash (ys ! j) \<noteq> h"
    by (auto simp: grows_def)
  then show ?thesis
    unfolding findOneByHash_def by (intro findIndex_first) auto
qed

lemma grows_consumed:
  assumes "grows (refreshTokens s) (refreshTokens s')" and "consumed P t s"
  shows "consumed P t s'"
proof -
  from assms(2) obtain i where i: "findOneByHash (hashToken P t) (refreshTokens s) = Some i"
    "revokedAt (refreshTokens s ! i) \<noteq> None"
    by (auto simp: consumed_def split: option.splits)
  from i(1) have "i < length (refreshTokens s)"
    using findIndex_Some by (fastforce simp: findOneByHash_def)
  with assms(1) i(2) have "revokedAt (refreshTokens s' ! i) \<noteq> None"
    by (simp add: grows_def)
  with grows_findOne [OF assms(1) i(1)] show ?thesis
    by (simp add: consumed_def)
qed

lemma issue_tokens: "refreshTokens (issue P e u s) = refreshTokens s @ [newToken P e u]"
  by (simp add: issue_def)

lemma issue_users: "users (issue P e u s) = users s"
  by (simp add: issue_def)

lemma revoke_tokens:
  "refreshTokens (revoke i t s) = (refreshTokens s)[i := (refreshTokens s ! i)\<lparr>revokedAt := Some t\<rparr>]"
  by (simp add: revoke_def)

lemma revoke_users: "users (revoke i t s) = users s"
  by (simp add: revoke_def)



lemma refresh_grows: "grows (refreshTokens s) (refreshTokens (fst (refresh P e token s)))"
  by (auto simp: refresh_def Let_def issue_tokens revoke_tokens grows_refl
      intro: grows_trans [OF grows_revoke grows_append] split: option.splits)




lemma status_reply: "status (reply c m) = c"
  by (simp add: reply_def)

lemma refresh_missing:
  "falsy token \<Longrightarrow> refresh P e token s = (s, reply 401 ''Missing refresh token'')"
  by (simp add: refresh_def)

lemma refresh_unknown:
  "\<not> falsy token \<Longrightarrow>
   findOneByHash (hashToken P (toString token)) (refreshTokens s) = None \<Longrightarrow>
   refresh P e token s = (s, reply 401 ''Refresh token invalid'')"
  by (simp add: refresh_def)

lemma refresh_rejected:
  "\<not> falsy token \<Longrightarrow>
   findOneByHash (hashToken P (toString token)) (refreshTokens s) = Some i \<Longrightarrow>
   revokedAt (refreshTokens s ! i) \<noteq> None \<or> expiresAt (refreshTokens s ! i) < now e \<Longrightarrow>
   refresh P e token s = (s, reply 401 ''Refresh token invalid'')"
  by (simp add: refresh_def Let_def)

lemma refresh_orphan:
  "\<not> falsy token \<Longrightarrow>
   findOneByHash (hashToken P (toString token)) (refreshTokens s) = Some i \<Longrightarrow>
   revokedAt (refreshTokens s ! i) = None \<Longrightarrow>
   \<not> expiresAt (refreshTokens s ! i) < now e \<Longrightarrow>
   findById (userId (refreshTokens s ! i)) (users s) = None \<Longrightarrow>
   refresh P e token s = (s, reply 401 ''User not found'')"
  by (simp add: refresh_def Let_def)

lemma refresh_ok:
  "\<not> falsy token \<Longrightarrow>
   findOneByHash (hashToken P (toString token)) (refreshTokens s) = Some i \<Longrightarrow>
   revokedAt (refreshTokens s ! i) = None \<Longrightarrow>
   \<not> expiresAt (refreshTokens s ! i) < now e \<Longrightarrow>
   findById (userId (refreshTokens s ! i)) (users s) = Some u \<Longrightarrow>
   refresh P e token s =
     (issue P e u (revoke i (saveTime e) s), session_reply P 200 u (newRefresh e))"
  by (simp add: refresh_def Let_def)

lemma refresh_consumed:
  assumes "consumed P t s" and "t \<noteq> []"
  shows "refresh P e (Some t) s = (s, reply 401 ''Refresh token invalid'')"
proof -
  from assms(1) obtain i where i: "findOneByHash (hashToken P t) (refreshTokens s) = Some i"
    "revokedAt (refreshTokens s ! i) \<noteq> None"
    by (auto simp: consumed_def split: option.splits)
  show ?thesis
    by (rule refresh_rejected [where i = i]) (use assms(2) i in \<open>simp_all add: falsy_def toString_def\<close>)
qed

lemma refresh_success:
  assumes "refresh P e token s = (s1, r)" and "status r = 200"
  shows "\<exists>i u. \<not> falsy token
    \<and> findOneByHash (hashToken P (toString token)) (refreshTokens s) = Some i
    \<and> revokedAt (refreshTokens s ! i) = None
    \<and> \<not> expiresAt (refreshTokens s ! i) < now e
    \<and> findById (userId (refreshTokens s ! i)) (users s) = Some u
    \<and> s1 = issue P e u (revoke i (saveTime e) s)
    \<and> r = session_reply P 200 u (newRefresh e)"
proof (cases "falsy token")
  case True
  from refresh_missing [OF True, of P e s] assms show ?thesis
    by (simp add: reply_def)
next
  case nf: False
  show ?thesis
  proof (cases "findOneByHash (hashToken P (toString token)) (refreshTokens s)")
    case None
    from refresh_unknown [OF nf None, of e] assms show ?thesis
      by (simp add: reply_def)
  next
    case (Some i)
    show ?thesis
    proof (cases "revokedAt (refreshTokens s ! i) \<noteq> None \<or> expiresAt (refreshTokens s ! i) < now e")
      case True
      from refresh_rejected [OF nf Some True] assms show ?thesis
        by (simp add: reply_def)
    next
      case ok: False
      show ?thesis
      proof (cases "findById (userId (refreshTokens s ! i)) (users s)")
        case None
        from refresh_orphan [OF nf Some _ _ None, of e] ok assms show ?thesis
          by (simp add: reply_def)
      next
        case (Some u)
        from refresh_ok [OF nf \<open>findOneByHash _ _ = Some i\<close> _ _ Some, of e] ok assms
        have "s1 = issue P e u (revoke i (saveTime e) s)" "r = session_reply P 200 u (newRefresh e)"
          by simp_all
        with nf \<open>findOneByHash _ _ = Some i\<close> ok Some show ?thesis
          by simp
      qed
    qed
  qed
qed

lemma findById_uid: "findById i us = Some u \<Longrightarrow> uid u = i"
  by (auto simp: findById_def find_Some_iff)

lemma refresh_success_consumed:
  assumes "refresh P e (Some t) s = (s1, r)" and "status r = 200"
  shows "consumed P t s1 \<and> t \<noteq> []"
proof -
  from refresh_success [OF assms] obtain i u where h: "\<not> falsy (Some t)"
    "findOneByHash (hashToken P t) (refreshTokens s) = Some i"
    "s1 = issue P e u (revoke i (saveTime e) s)"
    by (auto simp: toString_def)
  from h(2) have i: "i < length (refreshTokens s)"
    using findIndex_Some by (fastforce simp: findOneByHash_def)
  have g: "grows (refreshTokens s) (refreshTokens s1)"
    using refresh_grows [of s P e "Some t"] assms(1) by simp
  have "revokedAt (refreshTokens s1 ! i) \<noteq> None"
    using i by (simp add: h(3) issue_tokens revoke_tokens nth_append)
  with grows_findOne [OF g h(2)] h(1) show ?thesis
    by (simp add: consumed_def falsy_def)
qed

subsection \<open>Chains of refreshes\<close>


lemma status_session_reply: "status (session_reply P c u t) = c"
  by (simp add: session_reply_def)




lemma hashes_revoke:
  "map tokenHash (refreshTokens (revoke i t s)) = map tokenHash (refreshTokens s)"
  by (cases "i < length (refreshTokens s)")
     (simp_all add: revoke_tokens map_update list_update_same_conv list_update_beyond)






section \<open>Session protocol: the claims\<close>

lemmas handler_defs =
  refresh_def login_def logout_def falsy_def toString_def findOneByHash_def
  findOneUnrevoked_def findById_def findByEmail_def issue_def revoke_def newToken_def
  session_reply_def reply_def Let_def

text \<open>
  C10. When refresh is called with a token whose record is valid (not revoked, not
  expired) but whose owner is no longer among the users, the answer is 401 and the
  database is the one before the call: the record is not revoked and no record is added.
\<close>

theorem refresh_owner_missing:
  assumes "\<not> falsy token"
    and "findOneByHash (hashToken P (toString token)) (refreshTokens s) = Some i"
    and "valid (now e) (refreshTokens s ! i)"
    and "findById (userId (refreshTokens s ! i)) (users s) = None"
  shows "status (snd (refresh P e token s)) = 401 \<and> fst (refresh P e token s) = s"
proof -
  from assms(3) have "revokedAt (refreshTokens s ! i) = None"
    "\<not> expiresAt (refreshTokens s ! i) < now e"
    by (simp_all add: valid_def)
  from refresh_orphan [OF assms(1,2) this assms(4)] show ?thesis
    by (simp add: status_reply)
qed

theorem refresh_owner_missing_witness:
  "\<not> falsy (Some ''t0'')
   \<and> findOneByHash (hashToken demo_prims (toString (Some ''t0'')))
        (refreshTokens orphan_session) = Some 0
   \<and> valid (now (at 10 ''t1'')) (refreshTokens orphan_session ! 0)
   \<and> findById (userId (refreshTokens orphan_session ! 0)) (users orphan_session) = None
   \<and> status (snd (refresh demo_prims (at 10 ''t1'') (Some ''t0'') orphan_session)) = 401
   \<and> fst (refresh demo_prims (at 10 ''t1'') (Some ''t0'') orphan_session) = orphan_session"
proof -
  have h1: "\<not> falsy (Some ''t0'')"
    by (simp add: falsy_def)
  have h2: "findOneByHash (hashToken demo_prims (toString (Some ''t0'')))
        (refreshTokens orphan_session) = Some 0"
    by (simp add: handler_defs demo_prims_def orphan_session_def)
  have h3: "valid (now (at 10 ''t1'')) (refreshTokens orphan_session ! 0)"
    by (simp add: valid_def at_def orphan_session_def)
  have h4: "findById (userId (refreshTokens orphan_session ! 0)) (users orphan_session) = None"
    by (simp add: handler_defs orphan_session_def)
  from refresh_owner_missing [OF h1 h2 h3 h4] h1 h2 h3 h4 show ?thesis
    by simp
qed


text \<open>
  C2, as stated: after an already revoked token is presented to refresh, every other
  valid record of the user is revoked, so that refresh with another of the user's
  tokens fails. The handler has no such step. In \<open>three_sessions\<close> the token \<open>tA\<close> is
  revoked and \<open>tB\<close>, \<open>tC\<close> are valid tokens of the same user; replaying \<open>tA\<close> is
  answered 401, and refresh with \<open>tB\<close> afterwards still succeeds.
\<close>

theorem reuse_cascade_counterexample:
  "consumed demo_prims ''tA'' three_sessions
   \<and> valid 10 (refreshTokens three_sessions ! 1)
   \<and> valid 10 (refreshTokens three_sessions ! 2)
   \<and> userId (refreshTokens three_sessions ! 1) = userId (refreshTokens three_sessions ! 0)
   \<and> userId (refreshTokens three_sessions ! 2) = userId (refreshTokens three_sessions ! 0)
   \<and> status (snd (refresh demo_prims (at 10 ''t1'') (Some ''tA'') three_sessions)) = 401
   \<and> status (snd (refresh demo_prims (at 20 ''t2'') (Some ''tB'')
        (fst (refresh demo_prims (at 10 ''t1'') (Some ''tA'') three_sessions)))) = 200"
  by (simp add: handler_defs consumed_def valid_def demo_prims_def at_def alice_def
      three_sessions_def)

text \<open>
  C2, amended: presenting an already revoked token to refresh is answered 401
  ``Refresh token invalid'' and changes no record; a later refresh, with any token, is
  answered as it would have been without the replay.
\<close>

theorem reuse_rejected_without_cascade:
  assumes "\<not> falsy token"
    and "findOneByHash (hashToken P (toString token)) (refreshTokens s) = Some i"
    and "revokedAt (refreshTokens s ! i) \<noteq> None"
  shows "refresh P e token s = (s, reply 401 ''Refresh token invalid'')
    \<and> refresh P e' token' (fst (refresh P e token s)) = refresh P e' token' s"
proof -
  have "refresh P e token s = (s, reply 401 ''Refresh token invalid'')"
    using assms(1,2) by (rule refresh_rejected) (simp add: assms(3))
  then show ?thesis
    by simp
qed

theorem reuse_rejected_without_cascade_witness:
  "\<not> falsy (Some ''tA'')
   \<and> findOneByHash (hashToken demo_prims (toString (Some ''tA'')))
        (refreshTokens three_sessions) = Some 0
   \<and> revokedAt (refreshTokens three_sessions ! 0) \<noteq> None
   \<and> refresh demo_prims (at 10 ''t1'') (Some ''tA'') three_sessions
        = (three_sessions, reply 401 ''Refresh token invalid'')
   \<and> refresh demo_prims (at 20 ''t2'') (Some ''tC'')
        (fst (refresh demo_prims (at 10 ''t1'') (Some ''tA'') three_sessions))
        = refresh demo_prims (at 20 ''t2'') (Some ''tC'') three_sessions"
proof -
  have h1: "\<not> falsy (Some ''tA'')"
    by (simp add: falsy_def)
  have h2: "findOneByHash (hashToken demo_prims (toString (Some ''tA'')))
        (refreshTokens three_sessions) = Some 0"
    by (simp add: handler_defs demo_prims_def three_sessions_def)
  have h3: "revokedAt (refreshTokens three_sessions ! 0) \<noteq> None"
    by (simp add: three_sessions_def)
  from reuse_rejected_without_cascade [OF h1 h2 h3] h1 h2 h3 show ?thesis
    by simp
qed

text \<open>
  C4, as stated: refresh answers 401 exactly when the cookie is absent, no record
  matches, or the matching record is not valid. In \<open>orphan_session\<close> the cookie is
  present and its record is valid, but the record's user is gone: the answer is 401.
\<close>

theorem refresh_status_counterexample:
  "\<not> (status (snd (refresh demo_prims (at 10 ''t1'') (Some ''t0'') orphan_session)) = 401
       \<longleftrightarrow> named_failure demo_prims (at 10 ''t1'') (Some ''t0'') orphan_session)"
  by (simp add: handler_defs named_failure_def valid_def demo_prims_def at_def
      orphan_session_def)

text \<open>
  C4, amended: refresh answers 401, sets no cookie and changes nothing when the cookie is
  absent or empty, when no record matches the hash of the presented token, when the
  matching record is revoked or its \<open>expiresAt\<close> is before now, or when the user of the
  record no longer exists. It answers 200 with a new access token, the user and a rotated
  cookie when the matching record is valid and its user exists.
\<close>

theorem refresh_status:
  "(falsy token
      \<or> findOneByHash (hashToken P (toString token)) (refreshTokens s) = None
      \<or> (\<exists>i. findOneByHash (hashToken P (toString token)) (refreshTokens s) = Some i
            \<and> (revokedAt (refreshTokens s ! i) \<noteq> None
               \<or> expiresAt (refreshTokens s ! i) < now e
               \<or> findById (userId (refreshTokens s ! i)) (users s) = None))
    \<longrightarrow> status (snd (refresh P e token s)) = 401
        \<and> cookie (snd (refresh P e token s)) = KeepCookie
        \<and> fst (refresh P e token s) = s)
   \<and> (\<not> falsy token
      \<and> findOneByHash (hashToken P (toString token)) (refreshTokens s) = Some i
      \<and> valid (now e) (refreshTokens s ! i)
      \<and> findById (userId (refreshTokens s ! i)) (users s) = Some u
    \<longrightarrow> snd (refresh P e token s)
          = \<lparr>status = 200,
             body = Session (createAccessToken P (uid u)) (uid u) (email u) (name u),
             cookie = SetCookie (newRefresh e)\<rparr>)"
proof (intro conjI impI)
  assume a: "falsy token
      \<or> findOneByHash (hashToken P (toString token)) (refreshTokens s) = None
      \<or> (\<exists>i. findOneByHash (hashToken P (toString token)) (refreshTokens s) = Some i
            \<and> (revokedAt (refreshTokens s ! i) \<noteq> None
               \<or> expiresAt (refreshTokens s ! i) < now e
               \<or> findById (userId (refreshTokens s ! i)) (users s) = None))"
  have "\<exists>m. refresh P e token s = (s, reply 401 m)"
  proof (cases "falsy token")
    case True
    then show ?thesis by (auto simp: refresh_missing)
  next
    case nf: False
    show ?thesis
    proof (cases "findOneByHash (hashToken P (toString token)) (refreshTokens s)")
      case None
      with nf show ?thesis by (auto simp: refresh_unknown)
    next
      case (Some j)
      show ?thesis
      proof (cases "revokedAt (refreshTokens s ! j) \<noteq> None
          \<or> expiresAt (refreshTokens s ! j) < now e")
        case True
        from refresh_rejected [OF nf Some True] show ?thesis by blast
      next
        case False
        with a nf Some have "findById (userId (refreshTokens s ! j)) (users s) = None"
          by auto
        from refresh_orphan [OF nf Some _ _ this, of e] False show ?thesis by blast
      qed
    qed
  qed
  then obtain m where m: "refresh P e token s = (s, reply 401 m)" ..
  show "status (snd (refresh P e token s)) = 401"
    by (simp add: m reply_def)
  show "cookie (snd (refresh P e token s)) = KeepCookie"
    by (simp add: m reply_def)
  show "fst (refresh P e token s) = s"
    by (simp add: m)
next
  assume b: "\<not> falsy token
      \<and> findOneByHash (hashToken P (toString token)) (refreshTokens s) = Some i
      \<and> valid (now e) (refreshTokens s ! i)
      \<and> findById (userId (refreshTokens s ! i)) (users s) = Some u"
  then have "revokedAt (refreshTokens s ! i) = None" "\<not> expiresAt (refreshTokens s ! i) < now e"
    by (simp_all add: valid_def)
  from refresh_ok [OF _ _ this, of token P u] b
  show "snd (refresh P e token s)
      = \<lparr>status = 200,
         body = Session (createAccessToken P (uid u)) (uid u) (email u) (name u),
         cookie = SetCookie (newRefresh e)\<rparr>"
    by (simp add: session_reply_def)
qed

theorem refresh_status_witness:
  "findOneByHash (hashToken demo_prims (toString (Some ''t0'')))
       (refreshTokens orphan_session) = Some 0
   \<and> findById (userId (refreshTokens orphan_session ! 0)) (users orphan_session) = None
   \<and> status (snd (refresh demo_prims (at 10 ''t1'') (Some ''t0'') orphan_session)) = 401
   \<and> fst (refresh demo_prims (at 10 ''t1'') (Some ''t0'') orphan_session) = orphan_session
   \<and> \<not> falsy (Some ''t0'')
   \<and> findOneByHash (hashToken demo_prims (toString (Some ''t0'')))
       (refreshTokens one_session) = Some 0
   \<and> valid (now (at 10 ''t1'')) (refreshTokens one_session ! 0)
   \<and> findById (userId (refreshTokens one_session ! 0)) (users one_session) = Some alice
   \<and> snd (refresh demo_prims (at 10 ''t1'') (Some ''t0'') one_session) = alice_session"
proof -
  have a1: "findOneByHash (hashToken demo_prims (toString (Some ''t0'')))
       (refreshTokens orphan_session) = Some 0"
    by (simp add: handler_defs demo_prims_def orphan_session_def)
  have a2: "findById (userId (refreshTokens orphan_session ! 0)) (users orphan_session) = None"
    by (simp add: handler_defs orphan_session_def)
  have b1: "\<not> falsy (Some ''t0'')"
    by (simp add: falsy_def)
  have b2: "findOneByHash (hashToken demo_prims (toString (Some ''t0'')))
       (refreshTokens one_session) = Some 0"
    by (simp add: handler_defs demo_prims_def one_session_def)
  have b3: "valid (now (at 10 ''t1'')) (refreshTokens one_session ! 0)"
    by (simp add: valid_def at_def one_session_def)
  have b4: "findById (userId (refreshTokens one_session ! 0)) (users one_session) = Some alice"
    by (simp add: handler_defs one_session_def alice_def)
  from refresh_status [of "Some ''t0''" demo_prims orphan_session "at 10 ''t1''"] a1 a2
  have c1: "status (snd (refresh demo_prims (at 10 ''t1'') (Some ''t0'') orphan_session)) = 401"
    "fst (refresh demo_prims (at 10 ''t1'') (Some ''t0'') orphan_session) = orphan_session"
    by simp_all
  from refresh_status [of "Some ''t0''" demo_prims one_session "at 10 ''t1''" 0 alice]
    b1 b2 b3 b4
  have c2: "snd (refresh demo_prims (at 10 ''t1'') (Some ''t0'') one_session) = alice_session"
    by (simp add: demo_prims_def alice_def at_def alice_session_def)
  from a1 a2 b1 b2 b3 b4 c1 c2 show ?thesis
    by simp
qed

text \<open>
  The expiry check of the handler is \<open>stored.expiresAt < new Date()\<close>: a record whose
  \<open>expiresAt\<close> is the very instant of the call is still accepted.
\<close>

lemma refresh_at_expiry_instant:
  "status (snd (refresh demo_prims (at 100 ''t1'') (Some ''t0'') one_session)) = 200
   \<and> \<not> valid (now (at 100 ''t1'')) (refreshTokens one_session ! 0)"
  by (simp add: handler_defs valid_def demo_prims_def at_def alice_def one_session_def)

text \<open>
  C5. A login that fails because no user has the email and a login that fails because
  the password does not match the stored hash get the same response, 401 with the
  message ``Invalid credentials'' and no cookie, and neither changes the database.
\<close>

theorem login_failures_indistinguishable:
  assumes "\<not> falsy em1" and "\<not> falsy pw1"
    and "findByEmail (toLowerCase P (toString em1)) (users s1) = None"
    and "\<not> falsy em2" and "\<not> falsy pw2"
    and "findByEmail (toLowerCase P (toString em2)) (users s2) = Some u"
    and "\<not> bcrypt_compare P (toString pw2) (passwordHash u)"
  shows "snd (login P e1 em1 pw1 s1) = snd (login P e2 em2 pw2 s2)
    \<and> snd (login P e1 em1 pw1 s1)
        = \<lparr>status = 401, body = Message ''Invalid credentials'', cookie = KeepCookie\<rparr>
    \<and> fst (login P e1 em1 pw1 s1) = s1
    \<and> fst (login P e2 em2 pw2 s2) = s2"
proof -
  have "login P e1 em1 pw1 s1 = (s1, reply 401 ''Invalid credentials'')"
    using assms(1-3) by (simp add: login_def)
  moreover have "login P e2 em2 pw2 s2 = (s2, reply 401 ''Invalid credentials'')"
    using assms(4-7) by (simp add: login_def)
  ultimately show ?thesis
    by (simp add: reply_def)
qed

theorem login_failures_indistinguishable_witness:
  "\<not> falsy (Some ''b@x.io'') \<and> \<not> falsy (Some ''secret'')
   \<and> findByEmail (toLowerCase demo_prims (toString (Some ''b@x.io''))) (users one_session) = None
   \<and> \<not> falsy (Some ''a@x.io'') \<and> \<not> falsy (Some ''guess'')
   \<and> findByEmail (toLowerCase demo_prims (toString (Some ''a@x.io''))) (users one_session)
       = Some alice
   \<and> \<not> bcrypt_compare demo_prims (toString (Some ''guess'')) (passwordHash alice)
   \<and> snd (login demo_prims (at 10 ''t1'') (Some ''b@x.io'') (Some ''secret'') one_session)
       = snd (login demo_prims (at 20 ''t2'') (Some ''a@x.io'') (Some ''guess'') one_session)"
proof -
  have h1: "\<not> falsy (Some ''b@x.io'')" and h2: "\<not> falsy (Some ''secret'')"
    and h4: "\<not> falsy (Some ''a@x.io'')" and h5: "\<not> falsy (Some ''guess'')"
    by (simp_all add: falsy_def)
  have h3: "findByEmail (toLowerCase demo_prims (toString (Some ''b@x.io'')))
      (users one_session) = None"
    by (simp add: handler_defs demo_prims_def one_session_def alice_def)
  have h6: "findByEmail (toLowerCase demo_prims (toString (Some ''a@x.io'')))
      (users one_session) = Some alice"
    by (simp add: handler_defs demo_prims_def one_session_def alice_def)
  have h7: "\<not> bcrypt_compare demo_prims (toString (Some ''guess'')) (passwordHash alice)"
    by (simp add: toString_def demo_prims_def alice_def)
  from login_failures_indistinguishable [OF h1 h2 h3 h4 h5 h6 h7,
      where ?e1.0 = "at 10 ''t1''" and ?e2.0 = "at 20 ''t2''"] h1 h2 h3 h4 h5 h6 h7
  show ?thesis
    by simp
qed

subsection \<open>Logout\<close>

lemma logout_reply:
  "snd (logout P e token s) = \<lparr>status = 200, body = Ok, cookie = ClearCookie\<rparr>"
  by (simp add: logout_def Let_def)

lemma logout_state:
  "fst (logout P e token s) =
     (if falsy token then s
      else (case findOneUnrevoked (hashToken P (toString token)) (refreshTokens s) of
              None \<Rightarrow> s
            | Some i \<Rightarrow> revoke i (now e) s))"
  by (simp add: logout_def Let_def)

lemma findOneUnrevoked_None_iff:
  "findOneUnrevoked h rs = None \<longleftrightarrow> \<not> (\<exists>r\<in>set rs. tokenHash r = h \<and> revokedAt r = None)"
  by (auto simp: findOneUnrevoked_def findIndex_None)

lemma findOneUnrevoked_Some:
  "findOneUnrevoked h rs = Some i \<Longrightarrow>
   i < length rs \<and> tokenHash (rs ! i) = h \<and> revokedAt (rs ! i) = None"
  using findIndex_Some [of "\<lambda>r. tokenHash r = h \<and> revokedAt r = None" rs i]
  by (simp add: findOneUnrevoked_def)

lemma findOneUnrevoked_after_revoke:
  assumes "distinct (map tokenHash rs)" and "findOneUnrevoked h rs = Some i"
  shows "findOneUnrevoked h (rs[i := (rs ! i)\<lparr>revokedAt := Some t\<rparr>]) = None"
proof -
  from findOneUnrevoked_Some [OF assms(2)]
  have i: "i < length rs" "tokenHash (rs ! i) = h" by simp_all
  let ?rs = "rs[i := (rs ! i)\<lparr>revokedAt := Some t\<rparr>]"
  have "\<not> (tokenHash r = h \<and> revokedAt r = None)" if "r \<in> set ?rs" for r
  proof -
    from that obtain j where j: "j < length rs" "r = ?rs ! j"
      by (auto simp: in_set_conv_nth)
    show ?thesis
    proof (cases "j = i")
      case True
      with j i show ?thesis by simp
    next
      case False
      with j have r: "r = rs ! j" by simp
      have "tokenHash (rs ! j) \<noteq> tokenHash (rs ! i)"
        using assms(1) i(1) j(1) False
        by (metis length_map nth_eq_iff_index_eq nth_map)
      with r i(2) show ?thesis by simp
    qed
  qed
  then show ?thesis
    by (simp add: findOneUnrevoked_None_iff)
qed

text \<open>
  Every handler keeps the hashes in the ledger pairwise different as long as the token it
  draws has a hash that is not in the ledger yet.
\<close>

lemma handle_hashes_distinct:
  assumes "distinct (map tokenHash (refreshTokens s))"
    and "hashToken P (newRefresh e) \<notin> set (map tokenHash (refreshTokens s))"
  shows "distinct (map tokenHash (refreshTokens (fst (handle P e q s))))"
proof -
  have fresh: "distinct (map tokenHash (refreshTokens (issue P e u s')))"
    if "map tokenHash (refreshTokens s') = map tokenHash (refreshTokens s)" for u s'
    using assms that by (simp add: issue_tokens newToken_def)
  show ?thesis
  proof (cases q)
    case (Register em nm pw)
    then show ?thesis
      using assms(1) fresh by (simp add: register_def Let_def split: option.splits)
  next
    case (Login em pw)
    then show ?thesis
      using assms(1) fresh by (simp add: login_def split: option.splits)
  next
    case (Refresh token)
    then show ?thesis
      using assms(1) fresh [OF hashes_revoke]
      by (simp add: refresh_def Let_def split: option.splits)
  next
    case (Logout token)
    then show ?thesis
      using assms(1) by (simp add: logout_state hashes_revoke split: option.splits)
  qed
qed

text \<open>
  C6. Logout always answers 200 \<open>{ok: true}\<close> and clears the cookie, whatever the token.
  It never touches the users. If the token is present and some unrevoked record has its
  hash, exactly one such record gets \<open>revokedAt = now\<close>; otherwise the database is
  unchanged. When the hashes in the ledger are pairwise different, a second logout with
  the same token succeeds as well and leaves the database as the first one left it.
\<close>

theorem logout_idempotent:
  "snd (logout P e token s) = \<lparr>status = 200, body = Ok, cookie = ClearCookie\<rparr>
   \<and> users (fst (logout P e token s)) = users s
   \<and> (\<not> falsy token
        \<and> (\<exists>r\<in>set (refreshTokens s).
              tokenHash r = hashToken P (toString token) \<and> revokedAt r = None)
      \<longrightarrow> (\<exists>i<length (refreshTokens s).
              tokenHash (refreshTokens s ! i) = hashToken P (toString token)
            \<and> revokedAt (refreshTokens s ! i) = None
            \<and> refreshTokens (fst (logout P e token s))
                = (refreshTokens s)[i := (refreshTokens s ! i)\<lparr>revokedAt := Some (now e)\<rparr>]))
   \<and> (falsy token
        \<or> \<not> (\<exists>r\<in>set (refreshTokens s).
              tokenHash r = hashToken P (toString token) \<and> revokedAt r = None)
      \<longrightarrow> fst (logout P e token s) = s)
   \<and> (distinct (map tokenHash (refreshTokens s))
      \<longrightarrow> logout P e' token (fst (logout P e token s))
          = (fst (logout P e token s), \<lparr>status = 200, body = Ok, cookie = ClearCookie\<rparr>))"
proof (intro conjI impI)
  show "snd (logout P e token s) = \<lparr>status = 200, body = Ok, cookie = ClearCookie\<rparr>"
    by (rule logout_reply)
  show "users (fst (logout P e token s)) = users s"
    by (simp add: logout_state revoke_users split: option.splits)
next
  assume a: "\<not> falsy token
        \<and> (\<exists>r\<in>set (refreshTokens s).
              tokenHash r = hashToken P (toString token) \<and> revokedAt r = None)"
  then obtain i where i: "findOneUnrevoked (hashToken P (toString token)) (refreshTokens s) = Some i"
    using findOneUnrevoked_None_iff [of "hashToken P (toString token)" "refreshTokens s"]
    by (cases "findOneUnrevoked (hashToken P (toString token)) (refreshTokens s)") auto
  from findOneUnrevoked_Some [OF i] a i
  show "\<exists>i<length (refreshTokens s).
              tokenHash (refreshTokens s ! i) = hashToken P (toString token)
            \<and> revokedAt (refreshTokens s ! i) = None
            \<and> refreshTokens (fst (logout P e token s))
                = (refreshTokens s)[i := (refreshTokens s ! i)\<lparr>revokedAt := Some (now e)\<rparr>]"
    by (auto simp: logout_state revoke_tokens)
next
  assume "falsy token
        \<or> \<not> (\<exists>r\<in>set (refreshTokens s).
              tokenHash r = hashToken P (toString token) \<and> revokedAt r = None)"
  then show "fst (logout P e token s) = s"
    using findOneUnrevoked_None_iff [of "hashToken P (toString token)" "refreshTokens s"]
    by (auto simp: logout_state)
next
  assume d: "distinct (map tokenHash (refreshTokens s))"
  have "fst (logout P e' token (fst (logout P e token s))) = fst (logout P e token s)"
  proof (cases "falsy token")
    case True
    then show ?thesis by (simp add: logout_state)
  next
    case nf: False
    show ?thesis
    proof (cases "findOneUnrevoked (hashToken P (toString token)) (refreshTokens s)")
      case None
      with nf show ?thesis by (simp add: logout_state)
    next
      case (Some i)
      from findOneUnrevoked_after_revoke [OF d Some, of "now e"] nf Some show ?thesis
        by (simp add: logout_state revoke_tokens)
    qed
  qed
  then show "logout P e' token (fst (logout P e token s))
      = (fst (logout P e token s), \<lparr>status = 200, body = Ok, cookie = ClearCookie\<rparr>)"
    using logout_reply [of P e' token "fst (logout P e token s)"]
    by (simp add: prod_eq_iff)
qed

theorem logout_idempotent_witness:
  "\<not> falsy (Some ''t0'') \<and> falsy None
   \<and> tokenHash (refreshTokens one_session ! 0) = hashToken demo_prims (toString (Some ''t0''))
   \<and> revokedAt (refreshTokens one_session ! 0) = None
   \<and> distinct (map tokenHash (refreshTokens one_session))
   \<and> refreshTokens (fst (logout demo_prims (at 10 ''x'') (Some ''t0'') one_session))
       = [\<lparr>userId = ''u1'', tokenHash = ''#t0'', expiresAt = 100, revokedAt = Some 10\<rparr>]
   \<and> logout demo_prims (at 20 ''x'') (Some ''t0'')
         (fst (logout demo_prims (at 10 ''x'') (Some ''t0'') one_session))
       = (fst (logout demo_prims (at 10 ''x'') (Some ''t0'') one_session),
          \<lparr>status = 200, body = Ok, cookie = ClearCookie\<rparr>)
   \<and> fst (logout demo_prims (at 10 ''x'') None one_session) = one_session"
proof -
  have h1: "\<not> falsy (Some ''t0'')" and h2: "falsy None"
    by (simp_all add: falsy_def)
  have h3: "tokenHash (refreshTokens one_session ! 0)
      = hashToken demo_prims (toString (Some ''t0''))"
    and h4: "revokedAt (refreshTokens one_session ! 0) = None"
    and h5: "distinct (map tokenHash (refreshTokens one_session))"
    by (simp_all add: toString_def demo_prims_def one_session_def)
  have h6: "\<exists>r\<in>set (refreshTokens one_session).
      tokenHash r = hashToken demo_prims (toString (Some ''t0'')) \<and> revokedAt r = None"
    by (simp add: toString_def demo_prims_def one_session_def)
  note lo = logout_idempotent [of demo_prims "at 10 ''x''" "Some ''t0''" one_session
      "at 20 ''x''"]
  from lo h1 h6 obtain i where "i < length (refreshTokens one_session)"
    "refreshTokens (fst (logout demo_prims (at 10 ''x'') (Some ''t0'') one_session))
       = (refreshTokens one_session)
           [i := (refreshTokens one_session ! i)\<lparr>revokedAt := Some (now (at 10 ''x''))\<rparr>]"
    by blast
  then have c1: "refreshTokens (fst (logout demo_prims (at 10 ''x'') (Some ''t0'') one_session))
       = [\<lparr>userId = ''u1'', tokenHash = ''#t0'', expiresAt = 100, revokedAt = Some 10\<rparr>]"
    by (simp add: one_session_def at_def)
  from lo h5 have c2: "logout demo_prims (at 20 ''x'') (Some ''t0'')
         (fst (logout demo_prims (at 10 ''x'') (Some ''t0'') one_session))
       = (fst (logout demo_prims (at 10 ''x'') (Some ''t0'') one_session),
          \<lparr>status = 200, body = Ok, cookie = ClearCookie\<rparr>)"
    by blast
  from logout_idempotent [of demo_prims "at 10 ''x''" None one_session] h2
  have c3: "fst (logout demo_prims (at 10 ''x'') None one_session) = one_session"
    by blast
  from h1 h2 h3 h4 h5 c1 c2 c3 show ?thesis
    by simp
qed


subsection \<open>The handler as a task\<close>

text \<open>A task that runs alone performs the handler.\<close>

lemma steps_refresh:
  "steps P e 4 (Start token, s) = (Done (snd (refresh P e token s)), fst (refresh P e token s))"
  by (simp add: numeral_eq_Suc refresh_def Let_def split: option.splits)

lemma steps_Done: "steps P e n (Done r, s) = (Done r, s)"
  by (induction n) simp_all

lemma run2_first:
  "run2 P ea eb (replicate n True) (ta, tb, s)
     = (fst (steps P ea n (ta, s)), tb, snd (steps P ea n (ta, s)))"
  by (induction n arbitrary: ta s) (simp_all split: prod.splits)

lemma run2_second:
  "run2 P ea eb (replicate n False) (ta, tb, s)
     = (ta, fst (steps P eb n (tb, s)), snd (steps P eb n (tb, s)))"
  by (induction n arbitrary: tb s) (simp_all split: prod.splits)

lemma run2_append:
  "run2 P ea eb (xs @ ys) c = run2 P ea eb ys (run2 P ea eb xs c)"
proof (induction xs arbitrary: c)
  case Nil
  show ?case by simp
next
  case (Cons x xs)
  obtain ta tb s where c: "c = (ta, tb, s)"
    by (cases c)
  show ?case
    unfolding c by (simp add: Cons.IH split: prod.splits)
qed

lemma serial_replicate: "serial = replicate 4 True @ replicate 4 False"
  by (simp add: serial_def numeral_eq_Suc)

lemma run2_serial:
  "run2 P ea eb serial (Start ta, Start tb, s)
     = (Done (snd (refresh P ea ta s)),
        Done (snd (refresh P eb tb (fst (refresh P ea ta s)))),
        fst (refresh P eb tb (fst (refresh P ea ta s))))"
  by (simp only: serial_replicate run2_append run2_first run2_second steps_refresh fst_conv
      snd_conv)

text \<open>
  When two refreshes with the same still-valid token, whose user exists, are served one
  after the other, the first is answered 200 and the second 401 ``Refresh token
  invalid''; the second changes nothing.
\<close>

lemma serial_refresh_single_use:
  assumes "\<not> falsy token"
    and "findOneByHash (hashToken P (toString token)) (refreshTokens s) = Some i"
    and "valid (now ea) (refreshTokens s ! i)"
    and "findById (userId (refreshTokens s ! i)) (users s) = Some u"
  shows "run2 P ea eb serial (Start token, Start token, s)
      = (Done (session_reply P 200 u (newRefresh ea)),
         Done (reply 401 ''Refresh token invalid''),
         issue P ea u (revoke i (saveTime ea) s))"
proof -
  from assms(3) have v: "revokedAt (refreshTokens s ! i) = None"
    "\<not> expiresAt (refreshTokens s ! i) < now ea"
    by (simp_all add: valid_def)
  let ?s1 = "issue P ea u (revoke i (saveTime ea) s)"
  have first: "refresh P ea token s = (?s1, session_reply P 200 u (newRefresh ea))"
    using assms(1,2) v assms(4) by (rule refresh_ok)
  from assms(1) obtain t where t: "token = Some t" "t \<noteq> []"
    by (cases token) (auto simp: falsy_def)
  from first t have "consumed P t ?s1"
    using refresh_success_consumed [of P ea t s ?s1 "session_reply P 200 u (newRefresh ea)"]
    by (simp add: status_session_reply)
  from refresh_consumed [OF this t(2), of eb] t(1)
  have second: "refresh P eb token ?s1 = (?s1, reply 401 ''Refresh token invalid'')"
    by simp
  show ?thesis
    by (simp add: run2_serial first second)
qed

subsection \<open>Two tasks under any schedule\<close>

lemma step_users: "users (snd (step P e t s)) = users s"
  by (cases t) (simp_all add: Let_def revoke_users issue_users split: option.splits)

lemma step_grows: "grows (refreshTokens s) (refreshTokens (snd (step P e t s)))"
  by (cases t)
     (simp_all add: Let_def revoke_tokens issue_tokens grows_refl grows_revoke grows_append
        split: option.splits)

lemma step_todo: "todo (fst (step P e t s)) \<le> todo t - 1"
  by (cases t) (simp_all add: Let_def split: option.splits)

lemma step_past_lookup:
  assumes "past_lookup P e i u t" and "findById (uid u) (users s) = Some u"
  shows "past_lookup P e i u (fst (step P e t s))"
  using assms by (cases t) simp_all

lemma step_consumed:
  assumes "consumed P t s" and "t \<noteq> []"
  shows "step P e (Start (Some t)) s = (Done (reply 401 ''Refresh token invalid''), s)"
  using assms
  by (auto simp: consumed_def falsy_def toString_def Let_def split: option.splits)

text \<open>Swapping the two tasks and negating the schedule gives the mirrored run.\<close>

lemma run2_swap:
  "run2 P ea eb sched (ta, tb, s)
     = (case run2 P eb ea (map Not sched) (tb, ta, s) of (tb', ta', s') \<Rightarrow> (ta', tb', s'))"
  by (induction sched arbitrary: ta tb s) (simp_all split: prod.splits)

text \<open>A task that is scheduled often enough finishes.\<close>

lemma run2_finishes_first:
  "todo ta \<le> count_list sched True \<Longrightarrow> \<exists>r. fst (run2 P ea eb sched (ta, tb, s)) = Done r"
proof (induction sched arbitrary: ta tb s)
  case Nil
  then show ?case by (cases ta) simp_all
next
  case (Cons x sched)
  show ?case
  proof (cases x)
    case True
    obtain ta' s' where st: "step P ea ta s = (ta', s')"
      by (cases "step P ea ta s")
    from step_todo [of P ea ta s] st Cons.prems True have "todo ta' \<le> count_list sched True"
      by simp
    from Cons.IH [OF this] True st show ?thesis
      by simp
  next
    case False
    obtain tb' s' where st: "step P eb tb s = (tb', s')"
      by (cases "step P eb tb s")
    from Cons.prems False have "todo ta \<le> count_list sched True"
      by simp
    from Cons.IH [OF this] False st show ?thesis
      by simp
  qed
qed

lemma run2_finishes_second:
  assumes "todo tb \<le> count_list sched False"
  shows "\<exists>r. fst (snd (run2 P ea eb sched (ta, tb, s))) = Done r"
proof -
  have "count_list (map Not sched) True = count_list sched False"
    by (induction sched) auto
  with assms have "todo tb \<le> count_list (map Not sched) True"
    by simp
  from run2_finishes_first [OF this, of P eb ea ta s] show ?thesis
    by (auto simp: run2_swap [of P ea eb sched] split: prod.splits)
qed

text \<open>Once both tasks have read the record as valid, both rotate it.\<close>

lemma run2_both_past_lookup:
  assumes "past_lookup P ea i u ta" and "past_lookup P eb i u tb"
    and "findById (uid u) (users s) = Some u"
  shows "past_lookup P ea i u (fst (run2 P ea eb sched (ta, tb, s)))
    \<and> past_lookup P eb i u (fst (snd (run2 P ea eb sched (ta, tb, s))))"
  using assms
proof (induction sched arbitrary: ta tb s)
  case Nil
  then show ?case by simp
next
  case (Cons x sched)
  show ?case
  proof (cases x)
    case True
    obtain ta' s' where st: "step P ea ta s = (ta', s')"
      by (cases "step P ea ta s")
    have "past_lookup P ea i u ta'"
      using step_past_lookup [OF Cons.prems(1,3)] st by simp
    moreover have "findById (uid u) (users s') = Some u"
      using step_users [of P ea ta s] st Cons.prems(3) by simp
    ultimately show ?thesis
      using Cons.IH [of ta' tb s'] Cons.prems(2) True st by simp
  next
    case False
    obtain tb' s' where st: "step P eb tb s = (tb', s')"
      by (cases "step P eb tb s")
    have "past_lookup P eb i u tb'"
      using step_past_lookup [OF Cons.prems(2,3)] st by simp
    moreover have "findById (uid u) (users s') = Some u"
      using step_users [of P eb tb s] st Cons.prems(3) by simp
    ultimately show ?thesis
      using Cons.IH [of ta tb' s'] Cons.prems(1) False st by simp
  qed
qed

text \<open>
  Once the first task has saved the revocation while the second has not yet looked the
  record up, the first rotates and the second is refused.
\<close>

lemma run2_saved_before_lookup:
  assumes "ta = Saved u \<or> ta = Done (session_reply P 200 u (newRefresh ea))"
    and "tb = Start (Some t) \<or> tb = Done (reply 401 ''Refresh token invalid'')"
    and "consumed P t s" and "t \<noteq> []"
  shows "fst (run2 P ea eb sched (ta, tb, s)) \<in> {Saved u, Done (session_reply P 200 u (newRefresh ea))}
    \<and> fst (snd (run2 P ea eb sched (ta, tb, s)))
        \<in> {Start (Some t), Done (reply 401 ''Refresh token invalid'')}"
  using assms
proof (induction sched arbitrary: ta tb s)
  case Nil
  then show ?case by auto
next
  case (Cons x sched)
  show ?case
  proof (cases x)
    case True
    obtain ta' s' where st: "step P ea ta s = (ta', s')"
      by (cases "step P ea ta s")
    from Cons.prems(1) st
    have a: "ta' = Saved u \<or> ta' = Done (session_reply P 200 u (newRefresh ea))"
      by auto
    have "consumed P t s'"
      using step_grows [of s P ea ta] st Cons.prems(3) by (auto intro: grows_consumed)
    from Cons.IH [OF a Cons.prems(2) this Cons.prems(4)] True st show ?thesis
      by simp
  next
    case False
    from Cons.prems(2) step_consumed [OF Cons.prems(3,4), of eb]
    have "step P eb tb s = (Done (reply 401 ''Refresh token invalid''), s)"
      by auto
    with Cons.IH [OF Cons.prems(1) _ Cons.prems(3,4), of "Done (reply 401 ''Refresh token invalid'')"]
      False show ?thesis
      by simp
  qed
qed

lemma count_list_map_Not:
  "count_list (map Not xs) True = count_list xs False"
  "count_list (map Not xs) False = count_list xs True"
  by (induction xs) auto

lemma triple_of_parts: "fst c = a \<Longrightarrow> fst (snd c) = b \<Longrightarrow> \<exists>s'. c = (a, b, s')"
  by (cases c) auto

text \<open>The outcomes when the first request is the first to run.\<close>

lemma pair_outcomes_first:
  assumes "\<not> falsy token"
    and "findOneByHash (hashToken P (toString token)) (refreshTokens s) = Some i"
    and "valid (now ea) (refreshTokens s ! i)"
    and "valid (now eb) (refreshTokens s ! i)"
    and "findById (userId (refreshTokens s ! i)) (users s) = Some u"
    and "3 \<le> count_list r True" and "4 \<le> count_list r False"
  shows "\<exists>s'. run2 P ea eb (True # r) (Start token, Start token, s)
      = (Done (session_reply P 200 u (newRefresh ea)),
         Done (if take 2 r = [True, True] then reply 401 ''Refresh token invalid''
               else session_reply P 200 u (newRefresh eb)),
         s')"
proof -
  let ?stored = "refreshTokens s ! i"
  let ?oka = "session_reply P 200 u (newRefresh ea)"
  let ?okb = "session_reply P 200 u (newRefresh eb)"
  from assms(1) obtain t where t: "token = Some t" "t \<noteq> []"
    by (cases token) (auto simp: falsy_def)
  from assms(3,4) have v: "revokedAt ?stored = None" "\<not> expiresAt ?stored < now ea"
    "\<not> expiresAt ?stored < now eb"
    by (simp_all add: valid_def)
  have owner: "uid u = userId ?stored"
    using assms(5) by (rule findById_uid)
  with assms(5) have user: "findById (uid u) (users s) = Some u"
    by simp
  have look: "step P e (Start token) s = (HasStored i ?stored, s)"
    if "\<not> expiresAt ?stored < now e" for e
    using assms(1,2) v(1) that by (simp add: Let_def)
  have both: "\<exists>s'. run2 P ea eb q (ta, tb, s) = (Done ?oka, Done ?okb, s')"
    if "past_lookup P ea i u ta" "past_lookup P eb i u tb"
      "todo ta \<le> count_list q True" "todo tb \<le> count_list q False" for q ta tb
  proof -
    from run2_finishes_first [OF that(3), of P ea eb tb s]
      run2_finishes_second [OF that(4), of P ea eb ta s]
      run2_both_past_lookup [OF that(1,2) user, of q]
    have "fst (run2 P ea eb q (ta, tb, s)) = Done ?oka"
      "fst (snd (run2 P ea eb q (ta, tb, s))) = Done ?okb"
      by auto
    then show ?thesis
      by (rule triple_of_parts)
  qed
  show ?thesis
  proof (cases r)
    case Nil
    with assms(6) show ?thesis by simp
  next
    case r: (Cons b r2)
    show ?thesis
    proof (cases b)
      case False
      have "\<exists>s'. run2 P ea eb r2 (HasStored i ?stored, HasStored i ?stored, s)
          = (Done ?oka, Done ?okb, s')"
        using assms(6,7) r False by (intro both) (simp_all add: owner)
      with r False show ?thesis
        by (simp add: look v del: step.simps)
    next
      case b: True
      show ?thesis
      proof (cases r2)
        case Nil
        with assms(7) r b show ?thesis by simp
      next
        case r2: (Cons c r3)
        show ?thesis
        proof (cases c)
          case False
          have "\<exists>s'. run2 P ea eb r3 (HasUser i u, HasStored i ?stored, s)
              = (Done ?oka, Done ?okb, s')"
            using assms(6,7) r b r2 False by (intro both) (simp_all add: owner)
          with r b r2 False show ?thesis
            by (simp add: look v assms(5) del: step.simps(1))
        next
          case c: True
          let ?s3 = "revoke i (saveTime ea) s"
          from assms(2) have i: "i < length (refreshTokens s)"
            using findIndex_Some by (fastforce simp: findOneByHash_def)
          have "findOneByHash (hashToken P t) (refreshTokens ?s3) = Some i"
            using grows_findOne [OF grows_revoke, of "hashToken P t" "refreshTokens s" i i]
              assms(2) t(1)
            by (simp add: revoke_tokens toString_def)
          then have cons: "consumed P t ?s3"
            using i by (simp add: consumed_def revoke_tokens)
          from run2_saved_before_lookup [of "Saved u" u P ea "Start (Some t)" t ?s3 eb r3]
            cons t(2)
          have mem: "fst (run2 P ea eb r3 (Saved u, Start (Some t), ?s3)) \<in> {Saved u, Done ?oka}"
            "fst (snd (run2 P ea eb r3 (Saved u, Start (Some t), ?s3)))
              \<in> {Start (Some t), Done (reply 401 ''Refresh token invalid'')}"
            by simp_all
          from assms(6,7) r b r2 c
          have "todo (Saved u) \<le> count_list r3 True" "todo (Start (Some t)) \<le> count_list r3 False"
            by simp_all
          from run2_finishes_first [OF this(1), of P ea eb "Start (Some t)" ?s3]
            run2_finishes_second [OF this(2), of P ea eb "Saved u" ?s3] mem
          have "fst (run2 P ea eb r3 (Saved u, Start (Some t), ?s3)) = Done ?oka"
            "fst (snd (run2 P ea eb r3 (Saved u, Start (Some t), ?s3)))
              = Done (reply 401 ''Refresh token invalid'')"
            by auto
          then have "\<exists>s'. run2 P ea eb r3 (Saved u, Start (Some t), ?s3)
              = (Done ?oka, Done (reply 401 ''Refresh token invalid''), s')"
            by (rule triple_of_parts)
          with r b r2 c t(1) show ?thesis
            using look [of ea] v assms(5) by (simp del: step.simps(1))
        qed
      qed
    qed
  qed
qed

text \<open>
  C3, as stated: of two concurrent refreshes with the same still-valid token exactly one
  succeeds, because the revocation is a conditional update. The handler reads the record
  with \<open>findOne\<close> and revokes it two awaits later with \<open>save\<close>. When both requests read
  before either saves, both are answered 200 and the ledger holds two new valid records.
\<close>

theorem concurrent_refresh_counterexample:
  "valid 10 (refreshTokens one_session ! 0) \<and> valid 11 (refreshTokens one_session ! 0)
   \<and> run2 demo_prims (at 10 ''t1'') (at 11 ''t2'') overlapping
        (Start (Some ''t0''), Start (Some ''t0''), one_session)
      = (Done \<lparr>status = 200, body = Session ''jwt-u1'' ''u1'' ''a@x.io'' ''Alice'',
               cookie = SetCookie ''t1''\<rparr>,
         Done \<lparr>status = 200, body = Session ''jwt-u1'' ''u1'' ''a@x.io'' ''Alice'',
               cookie = SetCookie ''t2''\<rparr>,
         \<lparr>users = [alice],
          refreshTokens =
            [\<lparr>userId = ''u1'', tokenHash = ''#t0'', expiresAt = 100, revokedAt = Some 11\<rparr>,
             \<lparr>userId = ''u1'', tokenHash = ''#t1'', expiresAt = 1010, revokedAt = None\<rparr>,
             \<lparr>userId = ''u1'', tokenHash = ''#t2'', expiresAt = 1011, revokedAt = None\<rparr>]\<rparr>)"
  by (simp add: overlapping_def handler_defs valid_def demo_prims_def at_def alice_def
      one_session_def)

text \<open>
  C3, amended: two refreshes with the same still-valid token, whose user exists, both run
  to their end under any schedule. The request that runs first always succeeds. The
  other one is answered 401 ``Refresh token invalid'' exactly when the first three steps
  of the schedule belong to one request, that is, when that request had saved the
  revocation before the other looked the record up; this is so in particular when the
  requests are served one after the other. Otherwise both requests read the record
  before either saves, and both succeed.
\<close>

theorem refresh_pair_outcomes:
  assumes "\<not> falsy token"
    and "findOneByHash (hashToken P (toString token)) (refreshTokens s) = Some i"
    and "valid (now ea) (refreshTokens s ! i)"
    and "valid (now eb) (refreshTokens s ! i)"
    and "findById (userId (refreshTokens s ! i)) (users s) = Some u"
    and "4 \<le> count_list sched True" and "4 \<le> count_list sched False"
  shows "\<exists>s'. run2 P ea eb sched (Start token, Start token, s)
      = (Done (if take 3 sched = [False, False, False] then reply 401 ''Refresh token invalid''
               else session_reply P 200 u (newRefresh ea)),
         Done (if take 3 sched = [True, True, True] then reply 401 ''Refresh token invalid''
               else session_reply P 200 u (newRefresh eb)),
         s')"
proof (cases sched)
  case Nil
  with assms(6) show ?thesis by simp
next
  case (Cons x r)
  show ?thesis
  proof (cases x)
    case True
    from assms(6,7) Cons True have "3 \<le> count_list r True" "4 \<le> count_list r False"
      by simp_all
    from pair_outcomes_first [OF assms(1-5) this]
    obtain s' where "run2 P ea eb (True # r) (Start token, Start token, s)
      = (Done (session_reply P 200 u (newRefresh ea)),
         Done (if take 2 r = [True, True] then reply 401 ''Refresh token invalid''
               else session_reply P 200 u (newRefresh eb)),
         s')" ..
    moreover have "take 3 sched = [True, True, True] \<longleftrightarrow> take 2 r = [True, True]"
      using Cons True by (simp add: numeral_3_eq_3 numeral_2_eq_2)
    moreover have "take 3 sched \<noteq> [False, False, False]"
      using Cons True by (simp add: numeral_3_eq_3)
    ultimately show ?thesis
      using Cons True by auto
  next
    case False
    from assms(6,7) Cons False
    have "3 \<le> count_list (map Not r) True" "4 \<le> count_list (map Not r) False"
      by (simp_all add: count_list_map_Not)
    from pair_outcomes_first [OF assms(1,2,4,3,5) this]
    obtain s' where "run2 P eb ea (True # map Not r) (Start token, Start token, s)
      = (Done (session_reply P 200 u (newRefresh eb)),
         Done (if take 2 (map Not r) = [True, True] then reply 401 ''Refresh token invalid''
               else session_reply P 200 u (newRefresh ea)),
         s')" ..
    then have "run2 P ea eb sched (Start token, Start token, s)
      = (Done (if take 2 (map Not r) = [True, True] then reply 401 ''Refresh token invalid''
               else session_reply P 200 u (newRefresh ea)),
         Done (session_reply P 200 u (newRefresh eb)),
         s')"
      using Cons False run2_swap [of P ea eb sched "Start token" "Start token" s] by simp
    moreover have "take 3 sched = [False, False, False] \<longleftrightarrow> take 2 (map Not r) = [True, True]"
    proof (cases r)
      case Nil
      with Cons False show ?thesis by simp
    next
      case r: (Cons b r2)
      show ?thesis
        using Cons False r by (cases r2) (auto simp: numeral_3_eq_3 numeral_2_eq_2)
    qed
    moreover have "take 3 sched \<noteq> [True, True, True]"
      using Cons False by (simp add: numeral_3_eq_3)
    ultimately show ?thesis
      by auto
  qed
qed

theorem refresh_pair_outcomes_witness:
  "\<not> falsy (Some ''t0'')
   \<and> findOneByHash (hashToken demo_prims (toString (Some ''t0'')))
       (refreshTokens one_session) = Some 0
   \<and> valid (now (at 10 ''t1'')) (refreshTokens one_session ! 0)
   \<and> valid (now (at 11 ''t2'')) (refreshTokens one_session ! 0)
   \<and> findById (userId (refreshTokens one_session ! 0)) (users one_session) = Some alice
   \<and> 4 \<le> count_list serial True \<and> 4 \<le> count_list serial False
   \<and> fst (run2 demo_prims (at 10 ''t1'') (at 11 ''t2'') serial
        (Start (Some ''t0''), Start (Some ''t0''), one_session)) = Done alice_session
   \<and> fst (snd (run2 demo_prims (at 10 ''t1'') (at 11 ''t2'') serial
        (Start (Some ''t0''), Start (Some ''t0''), one_session)))
      = Done (reply 401 ''Refresh token invalid'')"
proof -
  have b1: "\<not> falsy (Some ''t0'')"
    by (simp add: falsy_def)
  have b2: "findOneByHash (hashToken demo_prims (toString (Some ''t0'')))
       (refreshTokens one_session) = Some 0"
    by (simp add: handler_defs demo_prims_def one_session_def)
  have b3: "valid (now (at 10 ''t1'')) (refreshTokens one_session ! 0)"
    and b4: "valid (now (at 11 ''t2'')) (refreshTokens one_session ! 0)"
    by (simp_all add: valid_def at_def one_session_def)
  have b5: "findById (userId (refreshTokens one_session ! 0)) (users one_session) = Some alice"
    by (simp add: handler_defs one_session_def alice_def)
  have b6: "4 \<le> count_list serial True" and b7: "4 \<le> count_list serial False"
    by (simp_all add: serial_def)
  have t3: "take 3 serial = [True, True, True]"
    by (simp add: serial_def numeral_3_eq_3)
  from refresh_pair_outcomes [OF b1 b2 b3 b4 b5 b6 b7]
  obtain s' where "run2 demo_prims (at 10 ''t1'') (at 11 ''t2'') serial
        (Start (Some ''t0''), Start (Some ''t0''), one_session)
      = (Done (session_reply demo_prims 200 alice (newRefresh (at 10 ''t1''))),
         Done (reply 401 ''Refresh token invalid''), s')"
    by (auto simp: t3)
  then have "fst (run2 demo_prims (at 10 ''t1'') (at 11 ''t2'') serial
        (Start (Some ''t0''), Start (Some ''t0''), one_session)) = Done alice_session"
    "fst (snd (run2 demo_prims (at 10 ''t1'') (at 11 ''t2'') serial
        (Start (Some ''t0''), Start (Some ''t0''), one_session)))
      = Done (reply 401 ''Refresh token invalid'')"
    by (simp_all add: session_reply_def demo_prims_def alice_def at_def alice_session_def)
  with b1 b2 b3 b4 b5 b6 b7 show ?thesis
    by simp
qed

section \<open>Realtime gateway: properties\<close>

lemma workspaceRoom_inj: "workspaceRoom a = workspaceRoom b \<longleftrightarrow> a = b"
  by (simp add: workspaceRoom_def)

lemma findMembership_found:
  "casts w u \<Longrightarrow> \<exists>m\<in>set dir. m_workspaceId m = w \<and> m_userId m = u \<Longrightarrow>
   \<exists>m. findMembership casts w u dir = Inr (Some m)"
  by (cases "find (\<lambda>m. m_workspaceId m = w \<and> m_userId m = u) dir")
     (auto simp: findMembership_def find_None_iff)

lemma findMembership_absent:
  "casts w u \<Longrightarrow> \<not> (\<exists>m\<in>set dir. m_workspaceId m = w \<and> m_userId m = u) \<Longrightarrow>
   findMembership casts w u dir = Inr None"
  by (auto simp: findMembership_def find_None_iff)

lemma findMembership_cast_error:
  "\<not> casts w u \<Longrightarrow> findMembership casts w u dir = Inl CastError"
  by (simp add: findMembership_def)

text \<open>The socket after one call of the handler.\<close>

lemma socket_after_join:
  "socket_after sock (join_workspace casts dir w a sock) =
     (if w \<noteq> [] \<and> casts w (data_userId sock)
         \<and> (\<exists>m\<in>set dir. m_workspaceId m = w \<and> m_userId m = data_userId sock)
      then sock\<lparr>rooms := insert (workspaceRoom w) (rooms sock)\<rparr> else sock)"
proof (cases "w = []")
  case True
  then show ?thesis
    by (simp add: join_workspace_def socket_after_def)
next
  case ne: False
  show ?thesis
  proof (cases "casts w (data_userId sock)")
    case False
    with ne show ?thesis
      by (simp add: join_workspace_def socket_after_def findMembership_cast_error)
  next
    case c: True
    show ?thesis
    proof (cases "\<exists>m\<in>set dir. m_workspaceId m = w \<and> m_userId m = data_userId sock")
      case True
      from findMembership_found [of casts w "data_userId sock" dir] c True obtain m where
        "findMembership casts w (data_userId sock) dir = Inr (Some m)"
        by blast
      with ne c True show ?thesis
        by (simp add: join_workspace_def socket_after_def)
    next
      case False
      with ne c findMembership_absent [of casts w "data_userId sock" dir] show ?thesis
        by (auto simp: join_workspace_def socket_after_def)
    qed
  qed
qed

lemma after_joins_userId: "data_userId (after_joins casts sock js) = data_userId sock"
  by (induction js arbitrary: sock) (simp_all add: socket_after_join)

lemma after_joins_rooms:
  "rooms (after_joins casts sock js)
     = rooms sock \<union> {workspaceRoom w |w. joined casts (data_userId sock) js w}"
proof (induction js arbitrary: sock)
  case Nil
  show ?case by (simp add: joined_def)
next
  case (Cons j js)
  obtain dir w a where j: "j = (dir, w, a)"
    by (cases j)
  let ?u = "data_userId sock"
  define found where
    "found \<longleftrightarrow> w \<noteq> [] \<and> casts w ?u
       \<and> (\<exists>m\<in>set dir. m_workspaceId m = w \<and> m_userId m = ?u)"
  have step: "socket_after sock (join_workspace casts dir w a sock)
      = (if found then sock\<lparr>rooms := insert (workspaceRoom w) (rooms sock)\<rparr> else sock)"
    by (simp add: socket_after_join found_def)
  have "joined casts ?u (j # js) x \<longleftrightarrow> (found \<and> x = w) \<or> joined casts ?u js x" for x
    by (auto simp: joined_def j found_def)
  then have "{workspaceRoom x |x. joined casts ?u (j # js) x}
      = (if found then {workspaceRoom w} else {})
        \<union> {workspaceRoom x |x. joined casts ?u js x}"
    by auto
  then show ?case
    by (simp add: Cons.IH step j)
qed

lemma emit_deliveries:
  "(c, ev', p') \<in> set (emitWorkspaceEvent (Some socks) w ev p) \<longleftrightarrow>
     ev' = ev \<and> p' = p \<and> c < length socks \<and> workspaceRoom w \<in> rooms (socks ! c)"
  by (auto simp: emitWorkspaceEvent_def)

text \<open>
  C9. A connection attempt whose token is missing, is not a string, is empty, is refused
  by \<open>jwt.verify\<close> (bad signature, malformed, expired) or has no subject is refused with
  ``Unauthorized'' and no socket comes to exist, so there is nothing that could receive
  a \<open>join_workspace\<close>. Otherwise the new socket is bound to the user of the subject claim.
\<close>

theorem handshake_rejects_or_binds:
  "(tok = NoToken \<or> tok = NotAString \<or> tok = Token []
      \<or> (\<exists>t. tok = Token t
            \<and> (verify t = Throws \<or> verify t = Payload None \<or> verify t = Payload (Some [])))
    \<longrightarrow> authMiddleware verify tok = Inl ''Unauthorized''
        \<and> connect verify tok socks = (socks, Inl ''Unauthorized''))
   \<and> (t \<noteq> [] \<and> verify t = Payload (Some u) \<and> u \<noteq> []
    \<longrightarrow> authMiddleware verify (Token t) = Inr u
        \<and> connect verify (Token t) socks
            = (socks @ [\<lparr>data_userId = u, rooms = {}\<rparr>], Inr (length socks)))"
proof (intro conjI impI)
  assume bad: "tok = NoToken \<or> tok = NotAString \<or> tok = Token []
      \<or> (\<exists>t. tok = Token t
            \<and> (verify t = Throws \<or> verify t = Payload None \<or> verify t = Payload (Some [])))"
  show refused: "authMiddleware verify tok = Inl ''Unauthorized''"
  proof (cases tok)
    case NoToken
    then show ?thesis by (simp add: authMiddleware_def)
  next
    case NotAString
    then show ?thesis by (simp add: authMiddleware_def)
  next
    case (Token t)
    with bad have "t = [] \<or> verify t = Throws \<or> verify t = Payload None
        \<or> verify t = Payload (Some [])"
      by simp
    with Token show ?thesis
      by (auto simp: authMiddleware_def falsy_def)
  qed
  then show "connect verify tok socks = (socks, Inl ''Unauthorized'')"
    by (simp add: connect_def)
next
  assume good: "t \<noteq> [] \<and> verify t = Payload (Some u) \<and> u \<noteq> []"
  then show bound: "authMiddleware verify (Token t) = Inr u"
    by (simp add: authMiddleware_def falsy_def toString_def)
  then show "connect verify (Token t) socks
      = (socks @ [\<lparr>data_userId = u, rooms = {}\<rparr>], Inr (length socks))"
    by (simp add: connect_def fresh_socket_def)
qed

theorem handshake_rejects_or_binds_witness:
  "demo_verify ''expired'' = Throws
   \<and> connect demo_verify (Token ''expired'') [] = ([], Inl ''Unauthorized'')
   \<and> ''jwt-u1'' \<noteq> [] \<and> demo_verify ''jwt-u1'' = Payload (Some ''u1'') \<and> ''u1'' \<noteq> []
   \<and> connect demo_verify (Token ''jwt-u1'') []
       = ([\<lparr>data_userId = ''u1'', rooms = {}\<rparr>], Inr 0)"
proof -
  have h1: "demo_verify ''expired'' = Throws"
    and h2: "demo_verify ''jwt-u1'' = Payload (Some ''u1'')"
    by (simp_all add: demo_verify_def)
  from handshake_rejects_or_binds [of "Token ''expired''" demo_verify "[]"] h1
  have c1: "connect demo_verify (Token ''expired'') [] = ([], Inl ''Unauthorized'')"
    by simp
  from handshake_rejects_or_binds [of _ demo_verify "[]" "''jwt-u1''" "''u1''"] h2
  have c2: "connect demo_verify (Token ''jwt-u1'') []
       = ([\<lparr>data_userId = ''u1'', rooms = {}\<rparr>], Inr 0)"
    by simp
  from h1 h2 c1 c2 show ?thesis
    by simp
qed

text \<open>
  C7, as stated: the acknowledgement is ``Forbidden'' exactly when there is no
  membership or the workspace id is empty or malformed. For an empty workspace id the
  handler acknowledges with the message ``Workspace required''.
\<close>

theorem join_empty_workspace_counterexample:
  "join_workspace demo_casts demo_dir [] True (fresh_socket ''u1'')
     = Inr (fresh_socket ''u1'', Some \<lparr>ok = False, message = Some ''Workspace required''\<rparr>)
   \<and> join_workspace demo_casts demo_dir [] True (fresh_socket ''u1'')
     \<noteq> Inr (fresh_socket ''u1'', Some \<lparr>ok = False, message = Some ''Forbidden''\<rparr>)"
  by (simp add: join_workspace_def call_ack_def)

text \<open>
  A workspace id that is not empty and cannot be cast makes \<open>findOne\<close> reject: the
  handler ends with the error, without an acknowledgement and without a change of the
  socket.
\<close>

lemma join_workspace_cast_error:
  "workspaceId \<noteq> [] \<Longrightarrow> \<not> casts workspaceId (data_userId sock) \<Longrightarrow>
   join_workspace casts dir workspaceId hasAck sock = Inl CastError"
  by (simp add: join_workspace_def findMembership_cast_error)

lemma join_workspace_malformed_id:
  "join_workspace demo_casts demo_dir ''not-an-id'' True (fresh_socket ''u1'') = Inl CastError"
  by (simp add: join_workspace_def findMembership_def demo_casts_def fresh_socket_def)

text \<open>
  C7, amended: for a workspace id that is empty, or that the membership lookup can cast
  together with the user of the connection, \<open>join_workspace\<close> fails, leaving the socket
  as it was, exactly when the workspace id is empty, with the message ``Workspace
  required'', or the directory has no membership for the workspace and the user of the
  connection, with the message ``Forbidden''. Otherwise the socket enters the room of the
  workspace and the acknowledgement is \<open>{ok: true}\<close>. The acknowledgement is sent when
  the client passed a callback.
\<close>

theorem join_workspace_ack:
  "(workspaceId = []
    \<longrightarrow> join_workspace casts dir workspaceId hasAck sock
        = Inr (sock, call_ack hasAck \<lparr>ok = False, message = Some ''Workspace required''\<rparr>))
   \<and> (workspaceId \<noteq> [] \<and> casts workspaceId (data_userId sock)
      \<and> \<not> (\<exists>m\<in>set dir. m_workspaceId m = workspaceId \<and> m_userId m = data_userId sock)
    \<longrightarrow> join_workspace casts dir workspaceId hasAck sock
        = Inr (sock, call_ack hasAck \<lparr>ok = False, message = Some ''Forbidden''\<rparr>))
   \<and> (workspaceId \<noteq> [] \<and> casts workspaceId (data_userId sock)
      \<and> (\<exists>m\<in>set dir. m_workspaceId m = workspaceId \<and> m_userId m = data_userId sock)
    \<longrightarrow> join_workspace casts dir workspaceId hasAck sock
        = Inr (sock\<lparr>rooms := insert (workspaceRoom workspaceId) (rooms sock)\<rparr>,
               call_ack hasAck \<lparr>ok = True, message = None\<rparr>))
   \<and> call_ack True payload = Some payload"
proof (intro conjI impI)
  assume "workspaceId = []"
  then show "join_workspace casts dir workspaceId hasAck sock
      = Inr (sock, call_ack hasAck \<lparr>ok = False, message = Some ''Workspace required''\<rparr>)"
    by (simp add: join_workspace_def)
next
  assume a: "workspaceId \<noteq> [] \<and> casts workspaceId (data_userId sock)
      \<and> \<not> (\<exists>m\<in>set dir. m_workspaceId m = workspaceId \<and> m_userId m = data_userId sock)"
  then have "findMembership casts workspaceId (data_userId sock) dir = Inr None"
    by (simp add: findMembership_absent)
  with a show "join_workspace casts dir workspaceId hasAck sock
      = Inr (sock, call_ack hasAck \<lparr>ok = False, message = Some ''Forbidden''\<rparr>)"
    by (simp add: join_workspace_def)
next
  assume a: "workspaceId \<noteq> [] \<and> casts workspaceId (data_userId sock)
      \<and> (\<exists>m\<in>set dir. m_workspaceId m = workspaceId \<and> m_userId m = data_userId sock)"
  then obtain m where "findMembership casts workspaceId (data_userId sock) dir = Inr (Some m)"
    using findMembership_found [of casts workspaceId "data_userId sock" dir] by blast
  with a show "join_workspace casts dir workspaceId hasAck sock
      = Inr (sock\<lparr>rooms := insert (workspaceRoom workspaceId) (rooms sock)\<rparr>,
             call_ack hasAck \<lparr>ok = True, message = None\<rparr>)"
    by (simp add: join_workspace_def)
next
  show "call_ack True payload = Some payload"
    by (simp add: call_ack_def)
qed

theorem join_workspace_ack_witness:
  "join_workspace demo_casts demo_dir [] True (fresh_socket ''u2'')
     = Inr (fresh_socket ''u2'', Some \<lparr>ok = False, message = Some ''Workspace required''\<rparr>)
   \<and> ''W2'' \<noteq> [] \<and> demo_casts ''W2'' (data_userId (fresh_socket ''u2''))
   \<and> \<not> (\<exists>m\<in>set demo_dir. m_workspaceId m = ''W2'' \<and> m_userId m = data_userId (fresh_socket ''u2''))
   \<and> join_workspace demo_casts demo_dir ''W2'' True (fresh_socket ''u2'')
     = Inr (fresh_socket ''u2'', Some \<lparr>ok = False, message = Some ''Forbidden''\<rparr>)
   \<and> demo_casts ''W1'' (data_userId (fresh_socket ''u2''))
   \<and> (\<exists>m\<in>set demo_dir. m_workspaceId m = ''W1'' \<and> m_userId m = data_userId (fresh_socket ''u2''))
   \<and> join_workspace demo_casts demo_dir ''W1'' True (fresh_socket ''u2'')
     = Inr (\<lparr>data_userId = ''u2'', rooms = {''workspace:W1''}\<rparr>,
            Some \<lparr>ok = True, message = None\<rparr>)"
proof -
  have k2: "demo_casts ''W2'' (data_userId (fresh_socket ''u2''))"
    and k3: "demo_casts ''W1'' (data_userId (fresh_socket ''u2''))"
    by (simp_all add: demo_casts_def fresh_socket_def)
  have h2: "\<not> (\<exists>m\<in>set demo_dir. m_workspaceId m = ''W2''
      \<and> m_userId m = data_userId (fresh_socket ''u2''))"
    and h3: "\<exists>m\<in>set demo_dir. m_workspaceId m = ''W1''
      \<and> m_userId m = data_userId (fresh_socket ''u2'')"
    by (simp_all add: demo_dir_def fresh_socket_def)
  from join_workspace_ack [of "[]" demo_casts demo_dir True "fresh_socket ''u2''"]
  have c1: "join_workspace demo_casts demo_dir [] True (fresh_socket ''u2'')
     = Inr (fresh_socket ''u2'', Some \<lparr>ok = False, message = Some ''Workspace required''\<rparr>)"
    by (simp add: call_ack_def)
  from join_workspace_ack [of "''W2''" demo_casts demo_dir True "fresh_socket ''u2''"] k2 h2
  have c2: "join_workspace demo_casts demo_dir ''W2'' True (fresh_socket ''u2'')
     = Inr (fresh_socket ''u2'', Some \<lparr>ok = False, message = Some ''Forbidden''\<rparr>)"
    by (simp add: call_ack_def)
  from join_workspace_ack [of "''W1''" demo_casts demo_dir True "fresh_socket ''u2''"] k3 h3
  have c3: "join_workspace demo_casts demo_dir ''W1'' True (fresh_socket ''u2'')
     = Inr (\<lparr>data_userId = ''u2'', rooms = {''workspace:W1''}\<rparr>,
            Some \<lparr>ok = True, message = None\<rparr>)"
    by (simp add: call_ack_def fresh_socket_def workspaceRoom_def)
  from k2 k3 h2 h3 c1 c2 c3 show ?thesis
    by simp
qed

text \<open>
  C8. Before \<open>initSocket\<close> nothing is delivered. Afterwards an event published to a
  workspace is delivered, with its name and payload, to exactly the connections whose
  socket is in the room of that workspace; and a connection is in that room exactly when
  one of its \<open>join_workspace\<close> calls named this workspace and found a membership of its
  user (a call whose lookup ends with an error joins nothing). Hence a connection
  without a successful call receives nothing, and a connection that joined \<open>W\<close>
  receives what is published to \<open>W\<close> and nothing published to a workspace it did not
  join.
\<close>

theorem publish_scoped:
  "emitWorkspaceEvent None w ev p = []
   \<and> (c < length socks \<and> socks ! c = after_joins casts (fresh_socket u) js
    \<longrightarrow> ((c, ev', p') \<in> set (emitWorkspaceEvent (Some socks) w ev p)
          \<longleftrightarrow> ev' = ev \<and> p' = p \<and> joined casts u js w))
   \<and> (c < length socks \<and> socks ! c = fresh_socket u
    \<longrightarrow> (c, ev', p') \<notin> set (emitWorkspaceEvent (Some socks) w ev p))"
proof (intro conjI impI)
  show "emitWorkspaceEvent None w ev p = []"
    by (simp add: emitWorkspaceEvent_def)
next
  assume a: "c < length socks \<and> socks ! c = after_joins casts (fresh_socket u) js"
  have "workspaceRoom w \<in> rooms (after_joins casts (fresh_socket u) js)
      \<longleftrightarrow> joined casts u js w"
    by (auto simp: after_joins_rooms fresh_socket_def workspaceRoom_inj)
  with a show "(c, ev', p') \<in> set (emitWorkspaceEvent (Some socks) w ev p)
      \<longleftrightarrow> ev' = ev \<and> p' = p \<and> joined casts u js w"
    by (simp add: emit_deliveries)
next
  assume "c < length socks \<and> socks ! c = fresh_socket u"
  then show "(c, ev', p') \<notin> set (emitWorkspaceEvent (Some socks) w ev p)"
    by (simp add: emit_deliveries fresh_socket_def)
qed

theorem publish_scoped_witness:
  "(0::nat) < length [after_joins demo_casts (fresh_socket ''u1'') [(demo_dir, ''W1'', True)],
                      fresh_socket ''u2'']
   \<and> joined demo_casts ''u1'' [(demo_dir, ''W1'', True)] ''W1''
   \<and> \<not> joined demo_casts ''u1'' [(demo_dir, ''W1'', True)] ''W2''
   \<and> (0, ''issue_created'', ''i7'') \<in> set (emitWorkspaceEvent
        (Some [after_joins demo_casts (fresh_socket ''u1'') [(demo_dir, ''W1'', True)],
               fresh_socket ''u2''])
        ''W1'' ''issue_created'' ''i7'')
   \<and> (0, ''issue_created'', ''i7'') \<notin> set (emitWorkspaceEvent
        (Some [after_joins demo_casts (fresh_socket ''u1'') [(demo_dir, ''W1'', True)],
               fresh_socket ''u2''])
        ''W2'' ''issue_created'' ''i7'')
   \<and> (1, ''issue_created'', ''i7'') \<notin> set (emitWorkspaceEvent
        (Some [after_joins demo_casts (fresh_socket ''u1'') [(demo_dir, ''W1'', True)],
               fresh_socket ''u2''])
        ''W1'' ''issue_created'' ''i7'')"
proof -
  let ?socks = "[after_joins demo_casts (fresh_socket ''u1'') [(demo_dir, ''W1'', True)],
      fresh_socket ''u2'']"
  have j1: "joined demo_casts ''u1'' [(demo_dir, ''W1'', True)] ''W1''"
    and j2: "\<not> joined demo_casts ''u1'' [(demo_dir, ''W1'', True)] ''W2''"
    by (simp_all add: joined_def demo_dir_def demo_casts_def)
  from publish_scoped [of "''W1''" "''issue_created''" "''i7''" 0 ?socks demo_casts "''u1''"
      "[(demo_dir, ''W1'', True)]" "''issue_created''" "''i7''"] j1
  have c1: "(0, ''issue_created'', ''i7'') \<in> set (emitWorkspaceEvent (Some ?socks)
        ''W1'' ''issue_created'' ''i7'')"
    by simp
  from publish_scoped [of "''W2''" "''issue_created''" "''i7''" 0 ?socks demo_casts "''u1''"
      "[(demo_dir, ''W1'', True)]" "''issue_created''" "''i7''"] j2
  have c2: "(0, ''issue_created'', ''i7'') \<notin> set (emitWorkspaceEvent (Some ?socks)
        ''W2'' ''issue_created'' ''i7'')"
    by simp
  from publish_scoped [of "''W1''" "''issue_created''" "''i7''" 1 ?socks demo_casts "''u2''"
      "[]" "''issue_created''" "''i7''"]
  have c3: "(1, ''issue_created'', ''i7'') \<notin> set (emitWorkspaceEvent (Some ?socks)
        ''W1'' ''issue_created'' ''i7'')"
    by (simp add: joined_def)
  from j1 j2 c1 c2 c3 show ?thesis
    by simp
qed

end
